theory Spec2Isabelle
  imports Complex_Main
begin

section \<open>Python strings\<close>

text \<open>
  A Python \<open>str\<close> is a sequence of code points and \<open>len\<close> counts code points. The
  texts that the backend returns for parsing, and the subgoals made from them, are lists of
  code points: \<^typ>\<open>int list\<close>, here \<open>ustring\<close>. \<open>uni\<close> writes a literal as such a
  list. The texts that the code lowers with \<open>str.lower\<close> are the goal, the task, the
  analysis and the keys of the rule tables; they are modelled by \<^typ>\<open>string\<close>, every
  \<^typ>\<open>char\<close> read as one code point below 256, since the case table beyond that range
  is part of the Python runtime and not of the source. On code points below 256
  \<open>str.lower\<close> moves A to Z and U+00C0 to U+00DE (without U+00D7) up by 32 and leaves
  every other code point. \<open>isspace\<close> holds of the code points that \<open>str.isspace\<close>,
  \<open>str.strip()\<close> and \<open>str.split()\<close> take as whitespace.
\<close>

type_synonym ustring = "int list"

definition uni :: "string \<Rightarrow> ustring" where
  "uni s = map of_char s"

definition isspace :: "int \<Rightarrow> bool" where
  "isspace n =
     ((9 \<le> n \<and> n \<le> 13) \<or> (28 \<le> n \<and> n \<le> 32) \<or> n = 133 \<or> n = 160 \<or> n = 5760
      \<or> (8192 \<le> n \<and> n \<le> 8202) \<or> n = 8232 \<or> n = 8233 \<or> n = 8239 \<or> n = 8287
      \<or> n = 12288)"

definition lower_char :: "char \<Rightarrow> char" where
  "lower_char c =
     (let n = (of_char c :: nat)
      in if (65 \<le> n \<and> n \<le> 90) \<or> (192 \<le> n \<and> n \<le> 222 \<and> n \<noteq> 215)
         then char_of (n + 32) else c)"

definition lower :: "string \<Rightarrow> string" where
  "lower s = map lower_char s"

text \<open>\<open>s.strip()\<close>: whitespace is removed at both ends.\<close>

definition strip :: "ustring \<Rightarrow> ustring" where
  "strip s = rev (dropWhile isspace (rev (dropWhile isspace s)))"

text \<open>
  \<open>s.split(sep)\<close> for a separator of one character: the text is cut at every
  separator, and empty pieces are kept (\<open>''.split('\n') == ['']\<close>). The first
  argument of the scanning function is the current piece, reversed.
\<close>

fun split_scan :: "'a \<Rightarrow> 'a list \<Rightarrow> 'a list \<Rightarrow> 'a list list" where
  "split_scan sep cur [] = [rev cur]"
| "split_scan sep cur (c # cs) =
     (if c = sep then rev cur # split_scan sep [] cs else split_scan sep (c # cur) cs)"

definition split_on :: "'a \<Rightarrow> 'a list \<Rightarrow> 'a list list" where
  "split_on sep s = split_scan sep [] s"

text \<open>\<open>s.split()\<close> without argument: the maximal runs of non-whitespace.\<close>

fun words_scan :: "string \<Rightarrow> string \<Rightarrow> string list" where
  "words_scan cur [] = (if cur = [] then [] else [rev cur])"
| "words_scan cur (c # cs) =
     (if isspace (of_char c)
      then (if cur = [] then words_scan [] cs else rev cur # words_scan [] cs)
      else words_scan (c # cur) cs)"

definition split_ws :: "string \<Rightarrow> string list" where
  "split_ws s = words_scan [] s"

definition startswith :: "'a list \<Rightarrow> 'a list \<Rightarrow> bool" where
  "startswith s p = (take (length p) s = p)"

text \<open>\<open>needle in haystack\<close> on strings: \<open>needle\<close> occurs as a contiguous piece.\<close>

fun contains :: "'a list \<Rightarrow> 'a list \<Rightarrow> bool" where
  "contains [] needle = (needle = [])"
| "contains (c # cs) needle = (startswith (c # cs) needle \<or> contains cs needle)"

text \<open>Python's slice \<open>xs[:k]\<close>: a negative \<open>k\<close> counts from the end.\<close>

definition py_take :: "int \<Rightarrow> 'a list \<Rightarrow> 'a list" where
  "py_take k xs = (if k < 0 then take (nat (int (length xs) + k)) xs else take (nat k) xs)"

datatype py_error = IndexError | ValueError | AttributeError | BackendError

section \<open>The subgoal generator (\<open>llm/subgoal_generator.py\<close>)\<close>

text \<open>
  The client of the language model is input and output. The model takes what the
  first two statements of the \<open>try\<close> blocks produce (the prompt is formatted from the goal
  and the state, or from the task, and sent to \<open>llm_client.generate\<close>) as a function to
  either the exception raised or the text of the response.
\<close>

record 's LlamaClient =
  subgoal_reply :: "string \<Rightarrow> 's option \<Rightarrow> py_error + ustring"
  analysis_reply :: "string \<Rightarrow> py_error + string"

record 's SubGoalGenerator =
  enabled :: bool
  llm_client :: "'s LlamaClient option"

record TaskAnalysis =
  task :: string
  analysis :: string
  complexity :: string
  estimated_steps :: int

text \<open>
  The prefixes of \<open>line.startswith((...))\<close>, in the order of the source. The eighth
  is the three code points U+00E2, U+20AC, U+00A2 that stand in the source file.
\<close>

definition markers :: "ustring list" where
  "markers = [uni ''1.'', uni ''2.'', uni ''3.'', uni ''4.'', uni ''5.'', uni ''-'', uni ''*'',
              [226, 8364, 162]]"

text \<open>
  The statement under \<open>if line.startswith(...)\<close>: \<open>line[1]\<close> is read first and raises
  \<open>IndexError\<close> on a line of one character.
\<close>

definition strip_marker :: "ustring \<Rightarrow> py_error + ustring" where
  "strip_marker line =
     (if (\<exists>m \<in> set markers. startswith line m)
      then (if length line \<le> 1 then Inl IndexError
            else if line ! 1 = of_char (CHR ''.'') then Inr (strip (drop 2 line))
            else Inr (strip (drop 1 line)))
      else Inr line)"

text \<open>The \<open>for line in lines\<close> loop, with the list \<open>subgoals\<close> built so far.\<close>

fun parse_lines :: "ustring list \<Rightarrow> ustring list \<Rightarrow> py_error + ustring list" where
  "parse_lines [] subgoals = Inr subgoals"
| "parse_lines (l # ls) subgoals =
     (let line = strip l
      in if line = [] then parse_lines ls subgoals
         else (case strip_marker line of
                 Inl e \<Rightarrow> Inl e
               | Inr line' \<Rightarrow>
                   if line' \<noteq> [] \<and> length line' > 3
                   then parse_lines ls (subgoals @ [line'])
                   else parse_lines ls subgoals))"

definition parse_subgoals :: "ustring \<Rightarrow> py_error + ustring list" where
  "parse_subgoals response =
     (if response = [] then Inr []
      else parse_lines (split_on (of_char (CHR 0x0A)) (strip response)) [])"

text \<open>A \<open>dict\<close> literal is read in insertion order: an association list.\<close>

definition fallback_subgoals :: "(string \<times> ustring list) list" where
  "fallback_subgoals =
     [(''survive'',
         map uni [''find food'', ''find shelter'', ''avoid enemies'', ''maintain health'']),
      (''collect wood'',
         map uni [''find trees'', ''chop wood'', ''gather resources'', ''return to base'']),
      (''make wood_pickaxe'',
         map uni [''collect wood'', ''find workbench'', ''craft pickaxe'', ''test tool'']),
      (''place furnace'',
         map uni [''collect stone'', ''find location'', ''place building'', ''verify placement'']),
      (''defeat zombie'',
         map uni [''find weapon'', ''approach enemy'', ''attack'', ''retreat if needed'']),
      (''explore'',
         map uni [''move around'', ''map area'', ''find resources'', ''avoid danger''])]"

fun first_match ::
    "(string \<Rightarrow> bool) \<Rightarrow> (string \<times> ustring list) list \<Rightarrow> ustring list option" where
  "first_match P [] = None"
| "first_match P ((key, subgoals) # rest) = (if P key then Some subgoals else first_match P rest)"

definition generate_fallback_subgoals :: "string \<Rightarrow> ustring list" where
  "generate_fallback_subgoals goal =
     (case first_match (\<lambda>key. contains (lower goal) (lower key)) fallback_subgoals of
        Some subgoals \<Rightarrow> subgoals
      | None \<Rightarrow> map uni [''explore environment'', ''gather resources'', ''avoid danger'',
                          ''complete objective''])"

text \<open>
  \<open>generate_subgoals\<close>: the body of the \<open>try\<close> block is \<open>generate_subgoals_try\<close>, and
  \<open>except Exception\<close> turns every exception of the body into the fallback list.
\<close>

definition generate_subgoals_try ::
    "'s LlamaClient \<Rightarrow> string \<Rightarrow> 's option \<Rightarrow> py_error + ustring list" where
  "generate_subgoals_try client goal current_state =
     (case subgoal_reply client goal current_state of
        Inl e \<Rightarrow> Inl e
      | Inr response \<Rightarrow>
          (case parse_subgoals response of
             Inl e \<Rightarrow> Inl e
           | Inr subgoals \<Rightarrow> Inr (take 5 subgoals)))"

definition generate_subgoals ::
    "'s SubGoalGenerator \<Rightarrow> string \<Rightarrow> 's option \<Rightarrow> py_error + ustring list" where
  "generate_subgoals gen goal current_state =
     (if \<not> enabled gen then Inr (generate_fallback_subgoals goal)
      else (case llm_client gen of
              None \<Rightarrow> Inr (generate_fallback_subgoals goal)
            | Some client \<Rightarrow>
                (case generate_subgoals_try client goal current_state of
                   Inl e \<Rightarrow> Inr (generate_fallback_subgoals goal)
                 | Inr subgoals \<Rightarrow> Inr subgoals)))"

definition analyze_task_fallback :: "string \<Rightarrow> TaskAnalysis" where
  "analyze_task_fallback t =
     \<lparr>task = t, analysis = ''Basic task analysis'', complexity = ''medium'',
      estimated_steps = 3\<rparr>"

definition estimate_complexity :: "string \<Rightarrow> string" where
  "estimate_complexity a =
     (if a = [] then ''unknown''
      else (let ws = split_ws (lower a)
            in if length ws < 10 then ''simple''
               else if length ws < 20 then ''medium''
               else ''complex''))"

definition action_words :: "string list" where
  "action_words = [''collect'', ''craft'', ''place'', ''defeat'', ''find'', ''move'', ''use'']"

definition estimate_steps :: "string \<Rightarrow> int" where
  "estimate_steps a =
     (if a = [] then 3
      else (let count = int (length (filter (\<lambda>word. contains (lower a) word) action_words))
            in max 2 (min count 6)))"

definition analyze_task :: "'s SubGoalGenerator \<Rightarrow> string \<Rightarrow> py_error + TaskAnalysis" where
  "analyze_task gen t =
     (if \<not> enabled gen then Inr (analyze_task_fallback t)
      else (case llm_client gen of
              None \<Rightarrow> Inr (analyze_task_fallback t)
            | Some client \<Rightarrow>
                (case analysis_reply client t of
                   Inl e \<Rightarrow> Inr (analyze_task_fallback t)
                 | Inr response \<Rightarrow>
                     Inr \<lparr>task = t, analysis = response,
                          complexity = estimate_complexity response,
                          estimated_steps = estimate_steps response\<rparr>)))"

section \<open>The parsing rule in the words of the specification\<close>

text \<open>
  The specification gives the parsing of a response as a rule: split into lines, drop
  blank lines, strip a leading enumeration marker, discard fragments shorter than four
  characters, truncate to five entries. \<open>spec_parse\<close> is that rule, written from the
  specification and not from the code; which characters count as the digit of a marker is
  its parameter. A line is blank when nothing but whitespace stands on it, and whitespace
  around a line and around what follows its marker is no part of the fragment.
\<close>

definition nonblank :: "ustring list \<Rightarrow> ustring list" where
  "nonblank ls = filter (\<lambda>s. s \<noteq> []) (map strip ls)"

definition is_digit :: "int \<Rightarrow> bool" where
  "is_digit c = (c \<in> set (uni ''0123456789''))"

definition digit_1_to_5 :: "int \<Rightarrow> bool" where
  "digit_1_to_5 c = (c \<in> set (uni ''12345''))"

definition spec_strip_marker :: "(int \<Rightarrow> bool) \<Rightarrow> ustring \<Rightarrow> ustring" where
  "spec_strip_marker digit line =
     (if 2 \<le> length line \<and> digit (line ! 0) \<and> line ! 1 = of_char (CHR ''.'')
      then drop 2 line
      else if startswith line (uni ''-'') \<or> startswith line (uni ''*'') then drop 1 line
      else line)"

definition spec_parse :: "(int \<Rightarrow> bool) \<Rightarrow> ustring \<Rightarrow> ustring list" where
  "spec_parse digit response =
     take 5 (filter (\<lambda>fragment. 4 \<le> length fragment)
       (map (\<lambda>line. strip (spec_strip_marker digit line))
         (nonblank (split_on (of_char (CHR 0x0A)) response))))"

text \<open>
  A line whose handling the rule above says nothing about: a dash or an asterisk with
  nothing behind it, or with a full stop right behind it, and a line that starts with the
  eighth prefix of the source. \<open>plain_markers\<close> holds of the responses without such a
  line.
\<close>

definition plain_line :: "ustring \<Rightarrow> bool" where
  "plain_line line =
     (if startswith line (uni ''-'') \<or> startswith line (uni ''*'')
      then 2 \<le> length line \<and> line ! 1 \<noteq> of_char (CHR ''.'')
      else \<not> startswith line [226, 8364, 162])"

definition plain_markers :: "ustring \<Rightarrow> bool" where
  "plain_markers response =
     list_all plain_line (nonblank (split_on (of_char (CHR 0x0A)) response))"

text \<open>
  A client that answers every prompt with the same text, as the \<open>DummyLlamaClient\<close>
  of the repository's tests does.
\<close>

definition canned_client :: "string \<Rightarrow> 's LlamaClient" where
  "canned_client reply =
     \<lparr>subgoal_reply = (\<lambda>goal current_state. Inr (uni reply)),
      analysis_reply = (\<lambda>t. Inr reply)\<rparr>"

section \<open>The search tree (\<open>planning/mcts.py\<close>)\<close>

text \<open>
  The nodes of a tree are objects that refer to each other: a node holds its parent and
  the list of its children, and \<open>backpropagate\<close> changes the counters of nodes that other
  nodes refer to. The model keeps the objects in a store, the list of the nodes in the
  order of their creation, and a reference is the index of a node in the store. The root
  of a search is node 0. A node is read with \<open>t ! i\<close>; the references of every store
  that the search builds are below the length of the store, which is part of what is
  proved of it. \<open>node_value\<close> is the attribute \<open>value\<close>. A Python \<open>float\<close> is
  modelled by a real number, \<open>float('inf')\<close> by a value of its own.
\<close>

record 's MCTSNode =
  state :: 's
  action :: "ustring option"
  parent :: "nat option"
  children :: "nat list"
  visits :: nat
  node_value :: real
  depth :: nat

type_synonym 's tree = "'s MCTSNode list"

datatype ucb = Finite real | Infinity

fun ucb_less :: "ucb \<Rightarrow> ucb \<Rightarrow> bool" where
  "ucb_less (Finite a) (Finite b) = (a < b)"
| "ucb_less (Finite a) Infinity = True"
| "ucb_less Infinity b = False"

text \<open>
  \<open>MCTSNode(state, action, parent)\<close>: the new object is the last of the store, and its
  depth is read from the parent.
\<close>

definition MCTSNode_init ::
    "'s tree \<Rightarrow> 's \<Rightarrow> ustring option \<Rightarrow> nat option \<Rightarrow> 's tree \<times> nat" where
  "MCTSNode_init t st a p =
     (t @ [\<lparr>state = st, action = a, parent = p, children = [], visits = 0, node_value = 0,
            depth = (case p of None \<Rightarrow> 0 | Some q \<Rightarrow> depth (t ! q) + 1)\<rparr>],
      length t)"

definition add_child :: "'s tree \<Rightarrow> nat \<Rightarrow> 's \<Rightarrow> ustring \<Rightarrow> 's tree \<times> nat" where
  "add_child t self st a =
     (let (t', child) = MCTSNode_init t st (Some a) (Some self)
      in (t'[self := (t' ! self)\<lparr>children := children (t' ! self) @ [child]\<rparr>], child))"

definition is_fully_expanded :: "'s MCTSNode \<Rightarrow> ustring list \<Rightarrow> bool" where
  "is_fully_expanded node available_actions =
     (length (children node) \<ge> length available_actions)"

text \<open>
  \<open>get_ucb_value\<close>: \<open>self.parent.visits\<close> raises \<open>AttributeError\<close> on a node without
  parent and \<open>math.log\<close> raises \<open>ValueError\<close> at 0. The logarithm of a count of at least
  1 is not negative, so \<open>math.sqrt\<close> does not raise.
\<close>

definition get_ucb_value :: "'s tree \<Rightarrow> nat \<Rightarrow> real \<Rightarrow> py_error + ucb" where
  "get_ucb_value t self exploration_constant =
     (if visits (t ! self) = 0 then Inr Infinity
      else (case parent (t ! self) of
              None \<Rightarrow> Inl AttributeError
            | Some p \<Rightarrow>
                if visits (t ! p) = 0 then Inl ValueError
                else Inr (Finite
                  (node_value (t ! self) / real (visits (t ! self))
                   + exploration_constant
                     * sqrt (ln (real (visits (t ! p))) / real (visits (t ! self)))))))"

text \<open>
  \<open>max(xs, key=...)\<close>: the keys are computed from left to right, the first item with
  the greatest key wins, an exception of a key is the exception of the call, and the empty
  list raises \<open>ValueError\<close>.
\<close>

fun max_scan ::
    "('a \<Rightarrow> py_error + 'k) \<Rightarrow> ('k \<Rightarrow> 'k \<Rightarrow> bool) \<Rightarrow> 'a \<Rightarrow> 'k \<Rightarrow> 'a list \<Rightarrow> py_error + 'a" where
  "max_scan key lt best best_key [] = Inr best"
| "max_scan key lt best best_key (x # xs) =
     (case key x of
        Inl e \<Rightarrow> Inl e
      | Inr k \<Rightarrow> if lt best_key k then max_scan key lt x k xs
                 else max_scan key lt best best_key xs)"

definition py_max :: "('a \<Rightarrow> py_error + 'k) \<Rightarrow> ('k \<Rightarrow> 'k \<Rightarrow> bool) \<Rightarrow> 'a list \<Rightarrow> py_error + 'a" where
  "py_max key lt xs =
     (case xs of
        [] \<Rightarrow> Inl ValueError
      | x # rest \<Rightarrow> (case key x of Inl e \<Rightarrow> Inl e | Inr k \<Rightarrow> max_scan key lt x k rest))"

text \<open>
  \<open>MCTS.select\<close>: the \<open>while\<close> loop descends from \<open>node\<close>. The result is \<open>None\<close> when
  the loop does not end.
\<close>

partial_function (option) select :: "real \<Rightarrow> 's tree \<Rightarrow> nat \<Rightarrow> (py_error + nat) option" where
  "select exploration_constant t node =
     (if children (t ! node) \<noteq> []
      then (if \<not> is_fully_expanded (t ! node) [] then Some (Inr node)
            else (case py_max (\<lambda>c. get_ucb_value t c exploration_constant) ucb_less
                         (children (t ! node)) of
                    Inl e \<Rightarrow> Some (Inl e)
                  | Inr best_child \<Rightarrow> select exploration_constant t best_child))
      else Some (Inr node))"

text \<open>
  \<open>np.random.choice\<close> makes a numpy array of the candidate strings and returns one of
  its elements as a \<open>numpy.str_\<close>. An array of strings stores no NUL character at the
  end of an element, so what comes back is the candidate without the NUL characters
  (U+0000) at its end: \<open>np_str\<close>.
\<close>

definition np_str :: "ustring \<Rightarrow> ustring" where
  "np_str s = rev (dropWhile (\<lambda>c. c = 0) (rev s))"

text \<open>
  \<open>MCTS.expand\<close>: the model takes the draw of \<open>np.random.choice\<close> as a number
  \<open>pick\<close> and reads it modulo the number of candidates, so every candidate can be drawn
  and nothing else. The state of a child is a copy of the state of its parent.
\<close>

definition expand :: "'s tree \<Rightarrow> nat \<Rightarrow> ustring list \<Rightarrow> nat \<Rightarrow> 's tree \<times> nat" where
  "expand t node available_actions pick =
     (if available_actions = [] then (t, node)
      else (let expanded_actions = map (\<lambda>child. action (t ! child)) (children (t ! node));
                unexpanded_actions =
                  filter (\<lambda>a. Some a \<notin> set expanded_actions) available_actions
            in if unexpanded_actions \<noteq> []
               then add_child t node (state (t ! node))
                      (np_str (unexpanded_actions ! (pick mod length unexpanded_actions)))
               else (t, node)))"

text \<open>
  \<open>MCTS.simulate\<close>: the sum of ten draws of \<open>np.random.normal\<close>, which the model takes
  as the function \<open>rewards\<close> from the number of the draw to its value.
\<close>

definition simulate :: "(nat \<Rightarrow> real) \<Rightarrow> real" where
  "simulate rewards = foldl (\<lambda>total_reward i. total_reward + rewards i) 0 [0..<10]"

text \<open>\<open>MCTS.backpropagate\<close>: the loop runs while \<open>node is not None\<close>.\<close>

partial_function (option) backpropagate :: "'s tree \<Rightarrow> nat option \<Rightarrow> real \<Rightarrow> 's tree option" where
  "backpropagate t node v =
     (case node of
        None \<Rightarrow> Some t
      | Some n \<Rightarrow>
          backpropagate
            (t[n := (t ! n)\<lparr>visits := visits (t ! n) + 1, node_value := node_value (t ! n) + v\<rparr>])
            (parent (t ! n)) v)"

section \<open>The planner (\<open>planning/planner.py\<close>)\<close>

text \<open>
  The configuration is a dictionary; \<open>config.get(key, default)\<close> reads a key that may
  be missing, so every entry is optional. The entries \<open>subgoal_generation\<close> and \<open>llm\<close>
  are read with \<open>config.get(key, {})\<close> and the result is asked for its own entries with
  \<open>.get\<close>. Such an entry is missing, or it is a dictionary, or it is another value
  (\<open>None\<close>, a number, a string, a list), which has no method \<open>get\<close>.
\<close>

datatype 'd dict_entry = Missing | Dict 'd | Other

record SubgoalGenerationConfig =
  sg_enabled :: "bool option"
  sg_max_subgoals :: "int option"

record LlmConfig =
  llm_enabled :: "bool option"

record Config =
  cfg_enabled :: "bool option"
  cfg_mcts_simulations :: "int option"
  cfg_max_depth :: "int option"
  cfg_exploration_constant :: "real option"
  cfg_subgoal_generation :: "SubgoalGenerationConfig dict_entry"
  cfg_llm :: "LlmConfig dict_entry"

text \<open>
  What the two \<open>import\<close> statements of the constructors find: whether the module
  \<open>llm.subgoal_generator\<close> can be imported, and the client \<open>LlamaClient(...)\<close> builds, or
  \<open>None\<close> when importing \<open>llama_client\<close> raises \<open>ImportError\<close>.
\<close>

record 's Imports =
  subgoal_generator_module :: bool
  llama_client :: "'s LlamaClient option"

definition get :: "'a option \<Rightarrow> 'a \<Rightarrow> 'a" where
  "get entry dflt = (case entry of None \<Rightarrow> dflt | Some v \<Rightarrow> v)"

text \<open>
  \<open>config.get(key, {})\<close> as the receiver of a call of \<open>.get\<close>: the dictionary that
  is asked, or the \<open>AttributeError\<close> of a value without that method.
\<close>

definition as_dict :: "'d dict_entry \<Rightarrow> 'd \<Rightarrow> py_error + 'd" where
  "as_dict entry dflt =
     (case entry of Missing \<Rightarrow> Inr dflt | Dict d \<Rightarrow> Inr d | Other \<Rightarrow> Inl AttributeError)"

text \<open>
  \<open>SubGoalGenerator.__init__\<close>: \<open>self.llm_config.get('enabled', True)\<close> is the first
  call on the entry \<open>llm\<close>.
\<close>

definition SubGoalGenerator_init :: "'s Imports \<Rightarrow> Config \<Rightarrow> py_error + 's SubGoalGenerator" where
  "SubGoalGenerator_init env config =
     (case as_dict (cfg_llm config) \<lparr>llm_enabled = None\<rparr> of
        Inl e \<Rightarrow> Inl e
      | Inr llm_config \<Rightarrow>
          (let e = get (llm_enabled llm_config) True
           in if e
              then (case llama_client env of
                      Some client \<Rightarrow> Inr \<lparr>enabled = True, llm_client = Some client\<rparr>
                    | None \<Rightarrow> Inr \<lparr>enabled = False, llm_client = None\<rparr>)
              else Inr \<lparr>enabled = False, llm_client = None\<rparr>))"

record 's Planner =
  enabled :: bool
  mcts_simulations :: int
  max_depth :: int
  exploration_constant :: real
  subgoal_enabled :: bool
  max_subgoals :: int
  llm :: "'s SubGoalGenerator option"

text \<open>
  \<open>Planner.__init__\<close>. The two reads of the entry \<open>subgoal_generation\<close> stand outside
  every \<open>try\<close>. The generator is built inside \<open>try ... except ImportError\<close>: a failed
  import leaves the planner without generator, and every other exception of the
  generator's constructor leaves the constructor of the planner.
\<close>

definition Planner_init :: "'s Imports \<Rightarrow> Config \<Rightarrow> py_error + 's Planner" where
  "Planner_init env config =
     (case as_dict (cfg_subgoal_generation config)
             \<lparr>sg_enabled = None, sg_max_subgoals = None\<rparr> of
        Inl e \<Rightarrow> Inl e
      | Inr subgoal_generation \<Rightarrow>
          (let se = get (sg_enabled subgoal_generation) True;
               p = \<lparr>enabled = get (cfg_enabled config) True,
                    mcts_simulations = get (cfg_mcts_simulations config) 100,
                    max_depth = get (cfg_max_depth config) 10,
                    exploration_constant = get (cfg_exploration_constant config) 1,
                    subgoal_enabled = se,
                    max_subgoals = get (sg_max_subgoals subgoal_generation) 5,
                    llm = None\<rparr>
           in if se
              then (if subgoal_generator_module env
                    then (case SubGoalGenerator_init env config of
                            Inl e \<Rightarrow> Inl e
                          | Inr gen \<Rightarrow> Inr (p\<lparr>llm := Some gen\<rparr>))
                    else Inr p)
              else Inr p))"

definition basic_subgoals :: "(string \<times> ustring list) list" where
  "basic_subgoals =
     [(''survive'', map uni [''find food'', ''find shelter'', ''avoid enemies'']),
      (''collect wood'', map uni [''find trees'', ''chop wood'', ''gather resources'']),
      (''make wood_pickaxe'', map uni [''collect wood'', ''craft pickaxe'', ''use workbench'']),
      (''place furnace'', map uni [''collect stone'', ''find location'', ''place building'']),
      (''defeat zombie'', map uni [''find weapon'', ''approach enemy'', ''attack''])]"

definition generate_basic_subgoals :: "string \<Rightarrow> ustring list" where
  "generate_basic_subgoals goal =
     (case first_match (\<lambda>key. contains (lower goal) key) basic_subgoals of
        Some subgoals \<Rightarrow> subgoals
      | None \<Rightarrow> map uni [''explore'', ''gather resources'', ''survive''])"

text \<open>\<open>Planner._generate_subgoals\<close>; the observation is the state the generator is given.\<close>

definition planner_generate_subgoals :: "'s Planner \<Rightarrow> 's \<Rightarrow> string \<Rightarrow> ustring list" where
  "planner_generate_subgoals p observation goal =
     (case llm p of
        None \<Rightarrow> generate_basic_subgoals goal
      | Some gen \<Rightarrow>
          if \<not> subgoal_enabled p then generate_basic_subgoals goal
          else (case generate_subgoals gen goal (Some observation) of
                  Inl e \<Rightarrow> generate_basic_subgoals goal
                | Inr subgoals \<Rightarrow> py_take (max_subgoals p) subgoals))"

text \<open>
  The random draws of one iteration of the search: the draw of \<open>np.random.choice\<close> and
  the draws of \<open>np.random.normal\<close>. A run of the search is given the draws of each of its
  iterations.
\<close>

record draws =
  pick :: nat
  rewards :: "nat \<Rightarrow> real"

text \<open>The body of the loop \<open>for _ in range(self.mcts_simulations)\<close>.\<close>

definition mcts_iteration ::
    "'s Planner \<Rightarrow> ustring list \<Rightarrow> draws \<Rightarrow> 's tree \<Rightarrow> (py_error + 's tree) option" where
  "mcts_iteration p subgoals d t =
     (case select (exploration_constant p) t 0 of
        None \<Rightarrow> None
      | Some (Inl e) \<Rightarrow> Some (Inl e)
      | Some (Inr node) \<Rightarrow>
          (let (t', node') =
                 (if int (depth (t ! node)) < max_depth p
                  then expand t node subgoals (pick d) else (t, node));
               v = simulate (rewards d)
           in (case backpropagate t' (Some node') v of
                 None \<Rightarrow> None
               | Some t'' \<Rightarrow> Some (Inr t''))))"

text \<open>
  The loop: \<open>n\<close> iterations are left, and the next has number \<open>k\<close>.
\<close>

fun mcts_iterations ::
    "'s Planner \<Rightarrow> ustring list \<Rightarrow> (nat \<Rightarrow> draws) \<Rightarrow> nat \<Rightarrow> nat \<Rightarrow> 's tree
      \<Rightarrow> (py_error + 's tree) option" where
  "mcts_iterations p subgoals rnd k 0 t = Some (Inr t)"
| "mcts_iterations p subgoals rnd k (Suc n) t =
     (case mcts_iteration p subgoals (rnd k) t of
        None \<Rightarrow> None
      | Some (Inl e) \<Rightarrow> Some (Inl e)
      | Some (Inr t') \<Rightarrow> mcts_iterations p subgoals rnd (Suc k) n t')"

text \<open>
  The loop \<open>while current.children\<close> that reads the plan off the tree. An action is
  appended when it is true as a condition: not \<open>None\<close> and not the empty string.
\<close>

partial_function (option) extract_plan ::
    "'s tree \<Rightarrow> nat \<Rightarrow> ustring list \<Rightarrow> (py_error + ustring list) option" where
  "extract_plan t current best_plan =
     (if children (t ! current) \<noteq> []
      then (case py_max (\<lambda>c. Inr (visits (t ! c))) (<) (children (t ! current)) of
              Inl e \<Rightarrow> Some (Inl e)
            | Inr best_child \<Rightarrow>
                extract_plan t best_child
                  (case action (t ! best_child) of
                     None \<Rightarrow> best_plan
                   | Some a \<Rightarrow> if a \<noteq> [] then best_plan @ [a] else best_plan))
      else Some (Inr best_plan))"

text \<open>
  \<open>Planner._refine_plan_with_mcts\<close>, in two parts: \<open>search_tree\<close> makes the root and
  runs the loop, and \<open>refine_plan_with_mcts\<close> reads the plan off the tree it returns.
\<close>

definition search_tree ::
    "'s Planner \<Rightarrow> (nat \<Rightarrow> draws) \<Rightarrow> 's \<Rightarrow> ustring list \<Rightarrow> (py_error + 's tree) option" where
  "search_tree p rnd observation subgoals =
     (let (t, root) = MCTSNode_init [] observation None None
      in mcts_iterations p subgoals rnd 0 (nat (mcts_simulations p)) t)"

definition refine_plan_with_mcts ::
    "'s Planner \<Rightarrow> (nat \<Rightarrow> draws) \<Rightarrow> 's \<Rightarrow> ustring list \<Rightarrow> (py_error + ustring list) option" where
  "refine_plan_with_mcts p rnd observation subgoals =
     (if subgoals = [] then Some (Inr [])
      else (case search_tree p rnd observation subgoals of
              None \<Rightarrow> None
            | Some (Inl e) \<Rightarrow> Some (Inl e)
            | Some (Inr t) \<Rightarrow>
                (case extract_plan t 0 [] of
                   None \<Rightarrow> None
                 | Some (Inl e) \<Rightarrow> Some (Inl e)
                 | Some (Inr best_plan) \<Rightarrow>
                     Some (Inr (if best_plan \<noteq> [] then best_plan else subgoals)))))"

definition plan ::
    "'s Planner \<Rightarrow> (nat \<Rightarrow> draws) \<Rightarrow> 's \<Rightarrow> string \<Rightarrow> (py_error + ustring list) option" where
  "plan p rnd observation goal =
     (if \<not> enabled p then Some (Inr [])
      else (let subgoals = planner_generate_subgoals p observation goal
            in if subgoals \<noteq> [] then refine_plan_with_mcts p rnd observation subgoals
               else Some (Inr [])))"

text \<open>
  \<open>Planner.update_plan\<close>: the result is a new plan or \<open>None\<close>, the inner \<open>option\<close> of
  the type.
\<close>

definition update_plan ::
    "'s Planner \<Rightarrow> (nat \<Rightarrow> draws) \<Rightarrow> 's \<Rightarrow> 'a \<Rightarrow> real
      \<Rightarrow> (py_error + ustring list option) option" where
  "update_plan p rnd current_state executed_action reward =
     (if reward < 0
      then (case plan p rnd current_state ''recover from failure'' of
              None \<Rightarrow> None
            | Some (Inl e) \<Rightarrow> Some (Inl e)
            | Some (Inr new_plan) \<Rightarrow> Some (Inr (Some new_plan)))
      else Some (Inr None))"

section \<open>Well-formed stores\<close>

text \<open>
  The properties of a store that the proofs follow through a search. In
  \<open>parents_ok\<close> the parent of a node is an older node and node 0 alone has none. In
  \<open>shape_ok\<close> the children of a node are nodes of the store that name it as their
  parent, a node has at most one child, a node with a child is above the depth limit,
  the actions are candidate actions as \<open>np_str\<close> returns them, and the depth of a node
  is one more than the depth of its parent. In \<open>visited\<close> a node with a child has been
  visited. \<open>same_shape\<close> relates two stores that differ in the counters \<open>visits\<close> and
  \<open>node_value\<close> only.
\<close>

definition parents_ok :: "'s tree \<Rightarrow> bool" where
  "parents_ok t \<longleftrightarrow>
     t \<noteq> [] \<and> (\<forall>i < length t. case parent (t ! i) of None \<Rightarrow> i = 0 | Some p \<Rightarrow> p < i)"

definition children_ok :: "'s tree \<Rightarrow> bool" where
  "children_ok t \<longleftrightarrow>
     (\<forall>i < length t. \<forall>c \<in> set (children (t ! i)). c < length t \<and> parent (t ! c) = Some i)"

definition shape_ok :: "ustring list \<Rightarrow> int \<Rightarrow> 's tree \<Rightarrow> bool" where
  "shape_ok subgoals md t \<longleftrightarrow>
     parents_ok t \<and> children_ok t \<and>
     (\<forall>i < length t.
        length (children (t ! i)) \<le> 1
        \<and> (children (t ! i) \<noteq> [] \<longrightarrow> int (depth (t ! i)) < md)
        \<and> (\<forall>a. action (t ! i) = Some a \<longrightarrow> a \<in> np_str ` set subgoals)
        \<and> (\<forall>p. parent (t ! i) = Some p \<longrightarrow> depth (t ! i) = depth (t ! p) + 1))
     \<and> depth (t ! 0) = 0"

definition visited :: "'s tree \<Rightarrow> bool" where
  "visited t \<longleftrightarrow> (\<forall>i < length t. children (t ! i) \<noteq> [] \<longrightarrow> 0 < visits (t ! i))"

definition same_shape :: "'s tree \<Rightarrow> 's tree \<Rightarrow> bool" where
  "same_shape t t' \<longleftrightarrow>
     length t' = length t \<and>
     (\<forall>i < length t.
        parent (t' ! i) = parent (t ! i) \<and> children (t' ! i) = children (t ! i)
        \<and> action (t' ! i) = action (t ! i) \<and> depth (t' ! i) = depth (t ! i)
        \<and> state (t' ! i) = state (t ! i))"

section \<open>Test doubles\<close>

text \<open>
  A random source that draws the same index at every choice and the reward 0 at every
  step of a rollout.
\<close>

definition constant_draws :: "nat \<Rightarrow> nat \<Rightarrow> draws" where
  "constant_draws i k = \<lparr>pick = i, rewards = (\<lambda>j. 0)\<rparr>"

section \<open>Properties of the string functions and of the parser\<close>

lemma last_dropWhile: "dropWhile P xs \<noteq> [] \<Longrightarrow> last (dropWhile P xs) = last xs"
  by (induction xs) (auto split: if_splits)

lemma strip_idem: "strip (strip s) = strip s"
proof -
  define t where "t = dropWhile isspace s"
  define u where "u = dropWhile isspace (rev t)"
  have s: "strip s = rev u" by (simp add: strip_def t_def u_def)
  have "dropWhile isspace (rev u) = rev u"
  proof (cases "u = []")
    case True then show ?thesis by simp
  next
    case False
    then have "rev t \<noteq> []" by (auto simp: u_def)
    then have tne: "t \<noteq> []" by simp
    have "last u = last (rev t)" using False unfolding u_def by (rule last_dropWhile)
    also have "\<dots> = hd t" using tne by (simp add: last_rev)
    finally have "last u = hd t" .
    moreover have "\<not> isspace (hd t)" using tne unfolding t_def by (rule hd_dropWhile)
    ultimately have "\<not> isspace (hd (rev u))" using False by (simp add: hd_rev)
    then show ?thesis using False by (cases "rev u") auto
  qed
  then have "strip (rev u) = rev (dropWhile isspace u)" by (simp add: strip_def)
  also have "\<dots> = rev u" by (simp add: u_def)
  finally show ?thesis by (simp add: s)
qed

lemma strip_ws_prefix: "isspace c \<Longrightarrow> strip (c # s) = strip s"
  by (simp add: strip_def)

lemma strip_ws_suffix: "isspace c \<Longrightarrow> strip (s @ [c]) = strip s"
proof -
  assume c: "isspace c"
  show ?thesis
  proof (cases "\<forall>x\<in>set s. isspace x")
    case True
    then have "\<forall>x\<in>set (s @ [c]). isspace x" using c by simp
    then have e1: "dropWhile isspace (s @ [c]) = []"
      by (simp only: dropWhile_eq_Nil_conv)
    have e2: "dropWhile isspace s = []"
      using True by (simp only: dropWhile_eq_Nil_conv)
    show ?thesis unfolding strip_def e1 e2 by simp
  next
    case False
    then have "dropWhile isspace (s @ [c]) = dropWhile isspace s @ [c]"
      by (auto simp: dropWhile_append1)
    then show ?thesis using c by (simp add: strip_def)
  qed
qed

lemma split_scan_cur:
  "split_scan sep cur r = (rev cur @ hd (split_scan sep [] r)) # tl (split_scan sep [] r)"
proof (induction r arbitrary: cur)
  case Nil
  then show ?case by simp
next
  case (Cons c cs)
  show ?case
  proof (cases "c = sep")
    case True
    then show ?thesis by simp
  next
    case False
    have "split_scan sep (c # cur) cs = (rev (c # cur) @ hd (split_scan sep [] cs)) # tl (split_scan sep [] cs)"
      by (rule Cons.IH)
    moreover have "split_scan sep [c] cs = (rev [c] @ hd (split_scan sep [] cs)) # tl (split_scan sep [] cs)"
      by (rule Cons.IH)
    ultimately show ?thesis using False by simp
  qed
qed

lemma split_scan_ne: "split_scan sep cur r \<noteq> []"
  by (induction r arbitrary: cur) auto

lemma split_scan_snoc:
  "split_scan sep cur (r @ [c]) =
     (if c = sep then split_scan sep cur r @ [[]]
      else butlast (split_scan sep cur r) @ [last (split_scan sep cur r) @ [c]])"
  by (induction r arbitrary: cur) (auto simp: split_scan_ne)

lemma nonblank_split_ws_prefix:
  assumes "isspace c"
  shows "nonblank (split_on sep (c # r)) = nonblank (split_on sep r)"
proof (cases "c = sep")
  case True
  then show ?thesis by (simp add: split_on_def nonblank_def strip_def)
next
  case False
  obtain h t where ht: "split_scan sep [] r = h # t"
    using split_scan_ne [of sep "[]" r] by (cases "split_scan sep [] r") auto
  have "split_scan sep [c] r = (rev [c] @ hd (split_scan sep [] r)) # tl (split_scan sep [] r)"
    by (rule split_scan_cur)
  then have "split_scan sep [c] r = (c # h) # t"
    by (simp add: ht)
  then show ?thesis using False assms ht
    by (simp add: split_on_def nonblank_def strip_ws_prefix)
qed

lemma nonblank_split_ws_suffix:
  assumes "isspace c"
  shows "nonblank (split_on sep (r @ [c])) = nonblank (split_on sep r)"
proof (cases "c = sep")
  case True
  then show ?thesis by (simp add: split_on_def nonblank_def strip_def split_scan_snoc)
next
  case False
  obtain b l where bl: "split_scan sep [] r = b @ [l]"
    using split_scan_ne [of sep "[]" r] by (cases "split_scan sep [] r" rule: rev_cases) auto
  then show ?thesis using False assms
    by (simp add: split_on_def nonblank_def split_scan_snoc strip_ws_suffix)
qed

lemma nonblank_split_dropWhile:
  "nonblank (split_on sep (dropWhile isspace r)) = nonblank (split_on sep r)"
  by (induction r) (auto simp: nonblank_split_ws_prefix)

lemma nonblank_split_ws_append:
  "\<forall>c\<in>set w. isspace c \<Longrightarrow> nonblank (split_on sep (r @ w)) = nonblank (split_on sep r)"
proof (induction w rule: rev_induct)
  case Nil
  then show ?case by simp
next
  case (snoc c w)
  have "nonblank (split_on sep ((r @ w) @ [c])) = nonblank (split_on sep (r @ w))"
    using snoc.prems by (intro nonblank_split_ws_suffix) simp
  then show ?case using snoc by simp
qed

lemma nonblank_split_strip:
  "nonblank (split_on sep (strip r)) = nonblank (split_on sep r)"
proof -
  define t where "t = dropWhile isspace r"
  have "t = rev (dropWhile isspace (rev t)) @ rev (takeWhile isspace (rev t))"
    by (metis rev_append rev_rev_ident takeWhile_dropWhile_id)
  moreover have "\<forall>c\<in>set (rev (takeWhile isspace (rev t))). isspace c"
    by (auto dest: set_takeWhileD)
  ultimately have "nonblank (split_on sep t) = nonblank (split_on sep (rev (dropWhile isspace (rev t))))"
    by (metis nonblank_split_ws_append)
  then show ?thesis
    by (simp add: strip_def t_def nonblank_split_dropWhile)
qed

lemma uni_eq_iff [simp]: "uni s = uni t \<longleftrightarrow> s = t"
  by (simp add: uni_def inj_map_eq_map inj_def)

lemma uni_Nil [simp]: "uni [] = []"
  by (simp add: uni_def)

lemma uni_eq_Nil [simp]: "uni s = [] \<longleftrightarrow> s = []"
  by (simp add: uni_def)

lemma Nil_eq_uni [simp]: "[] = uni s \<longleftrightarrow> s = []"
  by (simp add: uni_def)

lemma length_uni [simp]: "length (uni s) = length s"
  by (simp add: uni_def)

lemma markers_code_points:
  "markers = [[49, 46], [50, 46], [51, 46], [52, 46], [53, 46], [45], [42], [226, 8364, 162]]"
  by (simp add: markers_def uni_def)

lemma startswith2:
  "startswith line [a, b] \<longleftrightarrow> 2 \<le> length line \<and> line ! 0 = a \<and> line ! 1 = b"
proof (cases line)
  case Nil
  then show ?thesis by (simp add: startswith_def)
next
  case (Cons c cs)
  then show ?thesis by (cases cs) (auto simp: startswith_def)
qed

lemma startswith1:
  "startswith line [a] \<longleftrightarrow> 1 \<le> length line \<and> line ! 0 = a"
  by (cases line) (auto simp: startswith_def)

lemma startswith3:
  "startswith line [a, b, c] \<Longrightarrow> 3 \<le> length line"
  unfolding startswith_def by (metis length_take min.cobounded1 length_Cons list.size(3)
      numeral_3_eq_3)

lemma has_marker_iff:
  "(\<exists>m \<in> set markers. startswith line m) \<longleftrightarrow>
     (2 \<le> length line \<and> digit_1_to_5 (line ! 0) \<and> line ! 1 = of_char (CHR ''.''))
     \<or> startswith line (uni ''-'') \<or> startswith line (uni ''*'')
     \<or> startswith line [226, 8364, 162]"
  unfolding markers_code_points digit_1_to_5_def
  by (simp add: startswith2 uni_def) blast

lemma strip_marker_Inl:
  "strip_marker line = Inl e \<longleftrightarrow> e = IndexError \<and> (line = uni ''-'' \<or> line = uni ''*'')"
proof (cases "length line \<le> 1")
  case True
  have "\<not> (2 \<le> length line)" and "\<not> startswith line [226, 8364, 162]"
    using True startswith3 [of line 226 8364 162] by auto
  moreover have "startswith line (uni ''-'') \<longleftrightarrow> line = uni ''-''"
    and "startswith line (uni ''*'') \<longleftrightarrow> line = uni ''*''"
    using True by (cases line; simp add: startswith_def uni_def)+
  ultimately show ?thesis using True
    by (auto simp: strip_marker_def has_marker_iff)
next
  case False
  then have "line \<noteq> uni ''-''" and "line \<noteq> uni ''*''" by (auto simp: uni_def)
  then show ?thesis using False by (simp add: strip_marker_def)
qed

lemma strip_marker_plain:
  assumes "plain_line line" and "strip line = line"
  shows "strip_marker line = Inr (strip (spec_strip_marker digit_1_to_5 line))"
proof (cases "2 \<le> length line \<and> digit_1_to_5 (line ! 0) \<and> line ! 1 = of_char (CHR ''.'')")
  case True
  then show ?thesis
    by (simp add: strip_marker_def has_marker_iff spec_strip_marker_def)
next
  case nodigit: False
  show ?thesis
  proof (cases "startswith line (uni ''-'') \<or> startswith line (uni ''*'')")
    case True
    then have "2 \<le> length line" and "line ! 1 \<noteq> of_char (CHR ''.'')"
      using assms(1) by (simp_all add: plain_line_def)
    then show ?thesis using True nodigit
      by (auto simp add: strip_marker_def has_marker_iff spec_strip_marker_def)
  next
    case False
    then have "\<not> startswith line [226, 8364, 162]"
      using assms(1) by (simp add: plain_line_def)
    then show ?thesis using False nodigit assms(2)
      by (auto simp add: strip_marker_def has_marker_iff spec_strip_marker_def)
  qed
qed

lemma parse_lines_raises:
  "parse_lines ls acc = Inl e \<longleftrightarrow>
     e = IndexError \<and> (uni ''-'' \<in> set (nonblank ls) \<or> uni ''*'' \<in> set (nonblank ls))"
proof (induction ls arbitrary: acc)
  case Nil
  then show ?case by (simp add: nonblank_def)
next
  case (Cons l ls)
  show ?case
  proof (cases "strip_marker (strip l)")
    case (Inl e')
    then have "e' = IndexError" and "strip l = uni ''-'' \<or> strip l = uni ''*''"
      by (simp_all add: strip_marker_Inl)
    then show ?thesis using Inl by (auto simp: nonblank_def)
  next
    case (Inr line')
    then have "strip l \<noteq> uni ''-''" and "strip l \<noteq> uni ''*''"
      using strip_marker_Inl [of "strip l" IndexError] by auto
    then show ?thesis using Inr Cons.IH
      by (auto simp: nonblank_def Let_def)
  qed
qed

lemma parse_lines_plain:
  "list_all plain_line (nonblank ls) \<Longrightarrow>
   parse_lines ls acc =
     Inr (acc @ filter (\<lambda>fragment. 4 \<le> length fragment)
            (map (\<lambda>line. strip (spec_strip_marker digit_1_to_5 line)) (nonblank ls)))"
proof (induction ls arbitrary: acc)
  case Nil
  then show ?case by (simp add: nonblank_def)
next
  case (Cons l ls)
  have rest: "list_all plain_line (nonblank ls)"
    using Cons.prems by (simp add: nonblank_def split: if_splits)
  show ?case
  proof (cases "strip l = []")
    case True
    then show ?thesis using Cons.IH [OF rest] by (simp add: nonblank_def)
  next
    case False
    then have "plain_line (strip l)" using Cons.prems by (simp add: nonblank_def)
    then have "strip_marker (strip l) = Inr (strip (spec_strip_marker digit_1_to_5 (strip l)))"
      by (rule strip_marker_plain) (rule strip_idem)
    then show ?thesis using False Cons.IH [OF rest]
      by (auto simp: nonblank_def Let_def)
  qed
qed

lemma parse_subgoals_raises:
  "parse_subgoals response = Inl e \<longleftrightarrow>
     e = IndexError \<and> (uni ''-'' \<in> set (nonblank (split_on (of_char (CHR 0x0A)) response))
       \<or> uni ''*'' \<in> set (nonblank (split_on (of_char (CHR 0x0A)) response)))"
proof (cases "response = []")
  case True
  then show ?thesis by (simp add: parse_subgoals_def nonblank_def split_on_def strip_def)
next
  case False
  then show ?thesis
    by (simp add: parse_subgoals_def parse_lines_raises nonblank_split_strip)
qed

lemma parse_subgoals_plain:
  assumes "plain_markers response"
  shows "parse_subgoals response =
     Inr (filter (\<lambda>fragment. 4 \<le> length fragment)
            (map (\<lambda>line. strip (spec_strip_marker digit_1_to_5 line))
               (nonblank (split_on (of_char (CHR 0x0A)) response))))"
proof (cases "response = []")
  case True
  then show ?thesis by (simp add: parse_subgoals_def nonblank_def split_on_def strip_def)
next
  case False
  have "list_all plain_line (nonblank (split_on (of_char (CHR 0x0A)) (strip response)))"
    using assms by (simp add: plain_markers_def nonblank_split_strip)
  then show ?thesis using False
    by (simp add: parse_subgoals_def parse_lines_plain nonblank_split_strip)
qed

section \<open>Properties of the subgoal generator\<close>

lemma fallback_collect_wood:
  "generate_fallback_subgoals ''collect wood'' =
     (map uni [''find trees'', ''chop wood'', ''gather resources'', ''return to base''])"
  by code_simp

text \<open>
  Claim C7. With the oracle disabled (the generator is not enabled, or it has no client),
  \<open>generate_subgoals\<close> on the goal \<open>collect wood\<close> returns the list
  find trees, chop wood, gather resources, return to base, whatever the state argument is
  and on every call: the result is a function of the goal alone.
\<close>

theorem generate_subgoals_collect_wood_fixed:
  "\<not> SubGoalGenerator.enabled gen \<or> llm_client gen = None \<Longrightarrow>
   generate_subgoals gen ''collect wood'' current_state =
     Inr (map uni [''find trees'', ''chop wood'', ''gather resources'', ''return to base''])"
  by (auto simp: generate_subgoals_def fallback_collect_wood)

text \<open>The hypothesis of C7 at a generator that has a client and is switched off.\<close>

theorem generate_subgoals_collect_wood_fixed_witness:
  "generate_subgoals \<lparr>SubGoalGenerator.enabled = False, llm_client = Some (canned_client ''1. Walk north'')\<rparr>
     ''collect wood'' (Some (0::nat)) =
     Inr (map uni [''find trees'', ''chop wood'', ''gather resources'', ''return to base''])"
  using generate_subgoals_collect_wood_fixed
    [of "\<lparr>SubGoalGenerator.enabled = False, llm_client = Some (canned_client ''1. Walk north'')\<rparr>" "Some (0::nat)"]
  by simp

lemma isspace_lower_char: "isspace (of_char (lower_char c)) = isspace (of_char c)"
proof -
  have "(of_char c :: int) = int (of_char c)" by (simp add: of_nat_of_char)
  moreover have "(of_char (char_of (of_char c + 32 :: nat)) :: int) = int ((of_char c + 32) mod 256)"
    by (metis of_char_of of_nat_of_char)
  ultimately show ?thesis
    unfolding isspace_def lower_char_def Let_def by (auto simp: mod_if)
qed

lemma words_scan_lower:
  "words_scan (map lower_char cur) (map lower_char s) = map (map lower_char) (words_scan cur s)"
proof (induction s arbitrary: cur)
  case Nil
  then show ?case by (simp add: rev_map)
next
  case (Cons c s)
  have nil: "words_scan [] (map lower_char s) = map (map lower_char) (words_scan [] s)"
    using Cons.IH [of "[]"] by simp
  have cons: "words_scan (lower_char c # map lower_char cur) (map lower_char s) =
      map (map lower_char) (words_scan (c # cur) s)"
    using Cons.IH [of "c # cur"] by simp
  show ?case
    by (simp add: isspace_lower_char rev_map nil cons)
qed

lemma length_split_ws_lower: "length (split_ws (lower s)) = length (split_ws s)"
  using words_scan_lower [of "[]" s] by (simp add: split_ws_def lower_def)

text \<open>
  Claim C9, as the code has it. When the generator is enabled and the backend answers,
  the complexity is \<open>unknown\<close> for an empty answer and otherwise follows the number of
  words of the answer: fewer than 10 gives \<open>simple\<close>, fewer than 20 gives
  \<open>medium\<close>, anything longer \<open>complex\<close>. When the generator is disabled, has no
  client, or the backend call raises, the result is the fixed fallback record, whose
  complexity is \<open>medium\<close> whatever its text.
\<close>

theorem analyze_task_complexity:
  "(SubGoalGenerator.enabled gen \<and> llm_client gen = Some client \<and> analysis_reply client t = Inr response \<longrightarrow>
      (\<exists>a. analyze_task gen t = Inr a \<and> task a = t \<and> analysis a = response \<and>
         complexity a =
           (if response = [] then ''unknown''
            else if length (split_ws response) < 10 then ''simple''
            else if length (split_ws response) < 20 then ''medium''
            else ''complex'')))
   \<and> (\<not> SubGoalGenerator.enabled gen \<or> llm_client gen = None
        \<or> (\<exists>c e. llm_client gen = Some c \<and> analysis_reply c t = Inl e) \<longrightarrow>
      analyze_task gen t = Inr (analyze_task_fallback t))"
  by (auto simp: analyze_task_def estimate_complexity_def length_split_ws_lower Let_def)

lemma example_reply_words: "length (split_ws ''First collect wood then craft a table'') = 7"
  by code_simp

text \<open>An enabled generator whose backend answers with seven words.\<close>

theorem analyze_task_complexity_witness:
  "\<exists>a. analyze_task \<lparr>SubGoalGenerator.enabled = True,
          llm_client = Some (canned_client ''First collect wood then craft a table'' :: unit LlamaClient)\<rparr>
          ''make table'' = Inr a
       \<and> analysis a = ''First collect wood then craft a table'' \<and> complexity a = ''simple''"
  using analyze_task_complexity
    [of "\<lparr>SubGoalGenerator.enabled = True,
          llm_client = Some (canned_client ''First collect wood then craft a table'' :: unit LlamaClient)\<rparr>"
        "canned_client ''First collect wood then craft a table''" "''make table''"
        "''First collect wood then craft a table''"]
  by (auto simp: canned_client_def example_reply_words)

text \<open>
  Claim C9 as stated fails: on an empty answer of the backend the complexity is
  \<open>unknown\<close>, which is none of the three values.
\<close>

theorem analyze_task_unknown_counterexample:
  "analyze_task \<lparr>SubGoalGenerator.enabled = True, llm_client = Some (canned_client [] :: unit LlamaClient)\<rparr>
     ''collect wood'' =
     Inr \<lparr>task = ''collect wood'', analysis = [], complexity = ''unknown'', estimated_steps = 3\<rparr>
   \<and> ''unknown'' \<notin> {''simple'', ''medium'', ''complex''}"
  by (simp add: analyze_task_def canned_client_def estimate_complexity_def estimate_steps_def)


lemma raising_reply: "parse_subgoals (uni ''1. Find trees\<newline>-\<newline>3. Return'') = Inl IndexError"
  by code_simp

lemma raising_reply_line:
  "uni ''-'' \<in> set (nonblank (split_on (of_char (CHR 0x0A)) (uni ''1. Find trees\<newline>-\<newline>3. Return'')))"
  by code_simp

text \<open>
  Claim C10. \<open>parse_subgoals\<close> raises exactly on the responses with a line that is,
  whitespace apart, the single character \<open>-\<close> or \<open>*\<close>, and what it raises is
  \<open>IndexError\<close>; \<open>generate_subgoals\<close> returns a list for every generator, goal,
  state and response, and when the parser has raised the list is the fallback of the
  rule table for the goal.
\<close>

theorem parse_subgoals_raises_generate_subgoals_recovers:
  "(parse_subgoals response = Inl e \<longleftrightarrow>
      e = IndexError \<and> (uni ''-'' \<in> set (nonblank (split_on (of_char (CHR 0x0A)) response))
        \<or> uni ''*'' \<in> set (nonblank (split_on (of_char (CHR 0x0A)) response))))
   \<and> (\<exists>subgoals. generate_subgoals gen goal current_state = Inr subgoals)
   \<and> (SubGoalGenerator.enabled gen \<and> llm_client gen = Some client
        \<and> subgoal_reply client goal current_state = Inr response
        \<and> parse_subgoals response = Inl e \<longrightarrow>
      generate_subgoals gen goal current_state = Inr (generate_fallback_subgoals goal))"
proof (intro conjI)
  show "parse_subgoals response = Inl e \<longleftrightarrow>
      e = IndexError \<and> (uni ''-'' \<in> set (nonblank (split_on (of_char (CHR 0x0A)) response))
        \<or> uni ''*'' \<in> set (nonblank (split_on (of_char (CHR 0x0A)) response)))"
    by (rule parse_subgoals_raises)
  show "\<exists>subgoals. generate_subgoals gen goal current_state = Inr subgoals"
    by (simp add: generate_subgoals_def split: option.splits sum.splits)
  show "SubGoalGenerator.enabled gen \<and> llm_client gen = Some client
        \<and> subgoal_reply client goal current_state = Inr response
        \<and> parse_subgoals response = Inl e \<longrightarrow>
      generate_subgoals gen goal current_state = Inr (generate_fallback_subgoals goal)"
    by (simp add: generate_subgoals_def generate_subgoals_try_def)
qed

text \<open>A response with a line that is a lone dash, sent to an enabled generator.\<close>

theorem parse_subgoals_raises_generate_subgoals_recovers_witness:
  "parse_subgoals (uni ''1. Find trees\<newline>-\<newline>3. Return'') = Inl IndexError
   \<and> uni ''-'' \<in> set (nonblank (split_on (of_char (CHR 0x0A)) (uni ''1. Find trees\<newline>-\<newline>3. Return'')))
   \<and> generate_subgoals
         \<lparr>SubGoalGenerator.enabled = True,
          llm_client = Some (canned_client ''1. Find trees\<newline>-\<newline>3. Return'' :: unit LlamaClient)\<rparr>
         ''collect wood'' None =
       Inr (map uni [''find trees'', ''chop wood'', ''gather resources'', ''return to base''])"
  using parse_subgoals_raises_generate_subgoals_recovers
    [of "uni ''1. Find trees\<newline>-\<newline>3. Return''" IndexError
        "\<lparr>SubGoalGenerator.enabled = True,
          llm_client = Some (canned_client ''1. Find trees\<newline>-\<newline>3. Return'' :: unit LlamaClient)\<rparr>"
        "''collect wood''" None "canned_client ''1. Find trees\<newline>-\<newline>3. Return''"]
    raising_reply raising_reply_line fallback_collect_wood
  by (simp add: canned_client_def)

lemma example_reply_plain:
  "plain_markers (uni ''1. Find trees\<newline>2. Chop wood\<newline>\<newline>3. Return'')"
  by code_simp

lemma example_reply_spec:
  "spec_parse digit_1_to_5 (uni ''1. Find trees\<newline>2. Chop wood\<newline>\<newline>3. Return'') =
     (map uni [''Find trees'', ''Chop wood'', ''Return''])"
  by code_simp

lemma example_reply_parse:
  "parse_subgoals (uni ''1. Find trees\<newline>2. Chop wood\<newline>\<newline>3. Return'') =
     Inr (map uni [''Find trees'', ''Chop wood'', ''Return''])"
  by code_simp

text \<open>
  Claim C6, as the code has it. On a response without a line that is a lone dash or
  asterisk, starts with one followed by a full stop, or starts with the eighth prefix of
  the source (U+00E2 U+20AC U+00A2), \<open>parse_subgoals\<close> returns a list, and its first
  five entries, which are what \<open>generate_subgoals\<close> keeps, are the list of the
  specification's rule with the markers \<open>1.\<close> to \<open>5.\<close>, \<open>-\<close> and
  \<open>*\<close>. The response is any sequence of code points. The example of the
  specification parses to its three fragments.
\<close>

theorem parse_subgoals_refines_spec:
  "(plain_markers response \<longrightarrow>
      (\<exists>subgoals. parse_subgoals response = Inr subgoals
         \<and> take 5 subgoals = spec_parse digit_1_to_5 response
         \<and> (subgoal_reply client goal current_state = Inr response \<longrightarrow>
              generate_subgoals_try client goal current_state =
                Inr (spec_parse digit_1_to_5 response))))
   \<and> parse_subgoals (uni ''1. Find trees\<newline>2. Chop wood\<newline>\<newline>3. Return'') =
       Inr (map uni [''Find trees'', ''Chop wood'', ''Return''])"
  by (simp add: parse_subgoals_plain spec_parse_def generate_subgoals_try_def example_reply_parse)

text \<open>The example response satisfies the hypothesis of C6.\<close>

theorem parse_subgoals_refines_spec_witness:
  "plain_markers (uni ''1. Find trees\<newline>2. Chop wood\<newline>\<newline>3. Return'')
   \<and> generate_subgoals_try
         (canned_client ''1. Find trees\<newline>2. Chop wood\<newline>\<newline>3. Return'' :: unit LlamaClient)
         ''collect wood'' None =
       Inr (map uni [''Find trees'', ''Chop wood'', ''Return''])"
  using parse_subgoals_refines_spec
    [of "uni ''1. Find trees\<newline>2. Chop wood\<newline>\<newline>3. Return''"
        "canned_client ''1. Find trees\<newline>2. Chop wood\<newline>\<newline>3. Return'' :: unit LlamaClient"
        "''collect wood''" None]
    example_reply_plain example_reply_spec
  by (auto simp: canned_client_def)

text \<open>
  Claim C6 as stated fails: the marker \<open>6.\<close> is a digit followed by a full stop, and
  the code keeps it.
\<close>

theorem parse_subgoals_any_digit_counterexample:
  "parse_subgoals (uni ''6. Find trees'') = Inr [uni ''6. Find trees'']
   \<and> spec_parse is_digit (uni ''6. Find trees'') = [uni ''Find trees'']"
  by code_simp

text \<open>
  A line that starts with the eighth prefix loses its first code point only, so the two
  others stay in the fragment.
\<close>

lemma parse_subgoals_eighth_prefix:
  "parse_subgoals ([226, 8364, 162] @ uni '' Find trees'') =
     Inr [[8364, 162] @ uni '' Find trees'']"
  by code_simp

section \<open>Properties of the search\<close>

lemma max_scan_in:
  "\<forall>x\<in>set xs. \<exists>k. key x = Inr k \<Longrightarrow> \<exists>y\<in>set (best # xs). max_scan key lt best bk xs = Inr y"
proof (induction xs arbitrary: best bk)
  case Nil
  then show ?case by simp
next
  case (Cons x xs)
  then obtain k where k: "key x = Inr k" by auto
  have rest: "\<forall>x\<in>set xs. \<exists>k. key x = Inr k" using Cons.prems by simp
  show ?case
  proof (cases "lt bk k")
    case True
    then show ?thesis using Cons.IH [OF rest, of x k] k by auto
  next
    case False
    then show ?thesis using Cons.IH [OF rest, of best bk] k by auto
  qed
qed

lemma py_max_in:
  assumes "xs \<noteq> []" and "\<forall>x\<in>set xs. \<exists>k. key x = Inr k"
  shows "\<exists>y\<in>set xs. py_max key lt xs = Inr y"
proof (cases xs)
  case Nil
  then show ?thesis using assms by simp
next
  case (Cons x rest)
  then obtain k where k: "key x = Inr k" using assms by auto
  have "\<forall>x\<in>set rest. \<exists>k. key x = Inr k" using assms Cons by simp
  then have "\<exists>y\<in>set (x # rest). max_scan key lt x k rest = Inr y" by (rule max_scan_in)
  then show ?thesis using Cons k by (simp add: py_max_def)
qed

lemma parents_okD:
  assumes "parents_ok t" and "i < length t" and "parent (t ! i) = Some p"
  shows "p < i"
  using assms unfolding parents_ok_def by (auto split: option.splits)

lemma get_ucb_value_child:
  assumes "children_ok t" and "visited t" and "n < length t" and "c \<in> set (children (t ! n))"
  shows "\<exists>k. get_ucb_value t c C = Inr k"
proof -
  have p: "parent (t ! c) = Some n" using assms unfolding children_ok_def by blast
  have "children (t ! n) \<noteq> []" using assms(4) by auto
  then have "0 < visits (t ! n)" using assms(2,3) unfolding visited_def by blast
  then show ?thesis by (simp add: get_ucb_value_def p)
qed

lemma select_returns_leaf:
  assumes "parents_ok t" and "children_ok t" and "visited t" and "n < length t"
  shows "\<exists>m. select C t n = Some (Inr m) \<and> m < length t \<and> children (t ! m) = []"
  using assms(4)
proof (induction "length t - n" arbitrary: n rule: less_induct)
  case less
  show ?case
  proof (cases "children (t ! n) = []")
    case True
    then show ?thesis using less.prems by (subst select.simps) simp
  next
    case False
    have "\<forall>c\<in>set (children (t ! n)). \<exists>k. get_ucb_value t c C = Inr k"
      using get_ucb_value_child [OF assms(2,3) less.prems] by blast
    with False obtain y where y: "y \<in> set (children (t ! n))"
      and best: "py_max (\<lambda>c. get_ucb_value t c C) ucb_less (children (t ! n)) = Inr y"
      using py_max_in [of "children (t ! n)" "\<lambda>c. get_ucb_value t c C" ucb_less] by blast
    have ylen: "y < length t" and yp: "parent (t ! y) = Some n"
      using assms(2) less.prems y unfolding children_ok_def by blast+
    have "n < y" using parents_okD [OF assms(1) ylen yp] .
    then have "length t - y < length t - n" using ylen by simp
    then obtain m where "select C t y = Some (Inr m)" "m < length t" "children (t ! m) = []"
      using less.hyps [of y] ylen by blast
    then show ?thesis using False best
      by (subst select.simps) (simp add: is_fully_expanded_def)
  qed
qed


lemma same_shape_trans: "same_shape t t1 \<Longrightarrow> same_shape t1 t2 \<Longrightarrow> same_shape t t2"
  unfolding same_shape_def by simp

lemma same_shape_bump:
  "same_shape t (t[n := (t ! n)\<lparr>visits := a, node_value := b\<rparr>])"
proof (cases "n < length t")
  case True
  then show ?thesis unfolding same_shape_def by (auto simp: nth_list_update)
next
  case False
  then show ?thesis unfolding same_shape_def by (simp add: list_update_beyond)
qed

lemma parents_ok_same_shape: "parents_ok t \<Longrightarrow> same_shape t t' \<Longrightarrow> parents_ok t'"
  unfolding parents_ok_def same_shape_def by auto

lemma backpropagate_total:
  assumes "parents_ok t" and "n < length t"
  shows "\<exists>t'. backpropagate t (Some n) v = Some t' \<and> same_shape t t'
           \<and> (\<forall>j < length t. visits (t ! j) \<le> visits (t' ! j))
           \<and> 0 < visits (t' ! n)
           \<and> (\<forall>p. parent (t ! n) = Some p \<longrightarrow> 0 < visits (t' ! p))
           \<and> visits (t' ! 0) = visits (t ! 0) + 1"
  using assms
proof (induction n arbitrary: t rule: less_induct)
  case (less n)
  define t1 where
    "t1 = t[n := (t ! n)\<lparr>visits := visits (t ! n) + 1, node_value := node_value (t ! n) + v\<rparr>]"
  have shape1: "same_shape t t1" unfolding t1_def by (rule same_shape_bump)
  have ok1: "parents_ok t1" using less.prems(1) shape1 by (rule parents_ok_same_shape)
  have len1: "length t1 = length t" by (simp add: t1_def)
  have vn: "visits (t1 ! n) = visits (t ! n) + 1" using less.prems(2) by (simp add: t1_def)
  have vj: "j \<noteq> n \<Longrightarrow> visits (t1 ! j) = visits (t ! j)" for j by (simp add: t1_def)
  have mono1: "\<forall>j < length t. visits (t ! j) \<le> visits (t1 ! j)"
    using vn vj by (metis le_add1 order_refl)
  have step: "backpropagate t (Some n) v = backpropagate t1 (parent (t ! n)) v"
    by (subst backpropagate.simps) (simp add: t1_def)
  show ?case
  proof (cases "parent (t ! n)")
    case None
    then have "n = 0" using less.prems unfolding parents_ok_def by (auto split: option.splits)
    moreover have "backpropagate t1 None v = Some t1" by (subst backpropagate.simps) simp
    ultimately show ?thesis using None step shape1 mono1 vn by auto
  next
    case (Some p)
    have pn: "p < n" using parents_okD [OF less.prems(1,2) Some] .
    then have plen: "p < length t1" using less.prems(2) len1 by simp
    obtain t' where bp: "backpropagate t1 (Some p) v = Some t'"
      and shape': "same_shape t1 t'"
      and mono': "\<forall>j < length t1. visits (t1 ! j) \<le> visits (t' ! j)"
      and vp: "0 < visits (t' ! p)"
      and root: "visits (t' ! 0) = visits (t1 ! 0) + 1"
      using less.IH [OF pn ok1 plen] by blast
    have "visits (t1 ! n) \<le> visits (t' ! n)" using mono' less.prems(2) len1 by simp
    then have "0 < visits (t' ! n)" using vn by simp
    moreover have "\<forall>j < length t. visits (t ! j) \<le> visits (t' ! j)"
      using mono1 mono' len1 by (metis le_trans)
    moreover have "visits (t' ! 0) = visits (t ! 0) + 1"
      using root vj [of 0] pn by simp
    moreover have "same_shape t t'" using shape1 shape' by (rule same_shape_trans)
    ultimately show ?thesis using step Some bp vp by simp
  qed
qed

lemma expand_leaf:
  assumes "m < length t" and "children (t ! m) = []" and "subgoals \<noteq> []"
  shows "expand t m subgoals pk =
     ((t @ [\<lparr>state = state (t ! m), action = Some (np_str (subgoals ! (pk mod length subgoals))),
              parent = Some m, children = [], visits = 0, node_value = 0,
              depth = depth (t ! m) + 1\<rparr>])
        [m := (t ! m)\<lparr>children := [length t]\<rparr>],
      length t)"
  using assms
  by (simp add: expand_def add_child_def MCTSNode_init_def nth_append)

lemma shape_ok_grow:
  fixes t :: "'s tree" and st :: 's
  assumes ok: "shape_ok subgoals md t" and m: "m < length t"
    and leaf: "children (t ! m) = []" and d: "int (depth (t ! m)) < md"
    and a: "a \<in> np_str ` set subgoals"
  defines "t1 \<equiv> (t @ [\<lparr>state = st, action = Some a, parent = Some m, children = [],
                       visits = 0, node_value = 0, depth = depth (t ! m) + 1\<rparr>])
                  [m := (t ! m)\<lparr>children := [length t]\<rparr>]"
  shows "shape_ok subgoals md t1"
proof -
  have len: "length t1 = Suc (length t)" by (simp add: t1_def)
  have old: "i < length t \<Longrightarrow> i \<noteq> m \<Longrightarrow> t1 ! i = t ! i" for i
    by (simp add: t1_def nth_append)
  have atm: "t1 ! m = (t ! m)\<lparr>children := [length t]\<rparr>"
    using m by (simp add: t1_def nth_append)
  have new: "t1 ! length t = \<lparr>state = st, action = Some a, parent = Some m, children = [],
                       visits = 0, node_value = 0, depth = depth (t ! m) + 1\<rparr>"
    using m by (simp add: t1_def nth_append)
  have par: "i < length t \<Longrightarrow> parent (t1 ! i) = parent (t ! i)" for i
    using old [of i] atm by (cases "i = m") simp_all
  have act: "i < length t \<Longrightarrow> action (t1 ! i) = action (t ! i)" for i
    using old [of i] atm by (cases "i = m") simp_all
  have dep: "i < length t \<Longrightarrow> depth (t1 ! i) = depth (t ! i)" for i
    using old [of i] atm by (cases "i = m") simp_all
  have chi: "i < length t \<Longrightarrow> i \<noteq> m \<Longrightarrow> children (t1 ! i) = children (t ! i)" for i
    using old [of i] by simp
  have pok: "parents_ok t" and cok: "children_ok t" using ok by (simp_all add: shape_ok_def)
  have nodes: "i < length t \<Longrightarrow>
        length (children (t ! i)) \<le> 1
        \<and> (children (t ! i) \<noteq> [] \<longrightarrow> int (depth (t ! i)) < md)
        \<and> (\<forall>a. action (t ! i) = Some a \<longrightarrow> a \<in> np_str ` set subgoals)
        \<and> (\<forall>p. parent (t ! i) = Some p \<longrightarrow> depth (t ! i) = depth (t ! p) + 1)" for i
    using ok unfolding shape_ok_def by blast
  have "parents_ok t1"
    unfolding parents_ok_def
  proof (intro conjI allI impI)
    show "t1 \<noteq> []" using len by auto
  next
    fix i assume "i < length t1"
    then consider "i < length t" | "i = length t" using len by linarith
    then show "case parent (t1 ! i) of None \<Rightarrow> i = 0 | Some p \<Rightarrow> p < i"
    proof cases
      case 1
      then show ?thesis using pok par [OF 1] unfolding parents_ok_def by simp
    next
      case 2
      then show ?thesis using new m by simp
    qed
  qed
  moreover have "children_ok t1"
    unfolding children_ok_def
  proof (intro allI impI ballI)
    fix i c assume i: "i < length t1" and c: "c \<in> set (children (t1 ! i))"
    consider "i = m" | "i < length t" "i \<noteq> m" | "i = length t" using i len by linarith
    then show "c < length t1 \<and> parent (t1 ! c) = Some i"
    proof cases
      case 1
      then have "c = length t" using c atm by simp
      then show ?thesis using new len 1 by simp
    next
      case 2
      then have "c \<in> set (children (t ! i))" using c chi by simp
      then have "c < length t" and "parent (t ! c) = Some i"
        using cok 2(1) unfolding children_ok_def by blast+
      then show ?thesis using par [of c] len by simp
    next
      case 3
      then show ?thesis using c new by simp
    qed
  qed
  moreover have "depth (t1 ! 0) = 0"
    using ok dep [of 0] pok unfolding shape_ok_def parents_ok_def by simp
  moreover have "\<forall>i < length t1.
        length (children (t1 ! i)) \<le> 1
        \<and> (children (t1 ! i) \<noteq> [] \<longrightarrow> int (depth (t1 ! i)) < md)
        \<and> (\<forall>a. action (t1 ! i) = Some a \<longrightarrow> a \<in> np_str ` set subgoals)
        \<and> (\<forall>p. parent (t1 ! i) = Some p \<longrightarrow> depth (t1 ! i) = depth (t1 ! p) + 1)"
  proof (intro allI impI)
    fix i assume i: "i < length t1"
    consider "i = m" | "i < length t" "i \<noteq> m" | "i = length t" using i len by linarith
    then show "length (children (t1 ! i)) \<le> 1
        \<and> (children (t1 ! i) \<noteq> [] \<longrightarrow> int (depth (t1 ! i)) < md)
        \<and> (\<forall>a. action (t1 ! i) = Some a \<longrightarrow> a \<in> np_str ` set subgoals)
        \<and> (\<forall>p. parent (t1 ! i) = Some p \<longrightarrow> depth (t1 ! i) = depth (t1 ! p) + 1)"
    proof cases
      case 1
      have "\<forall>p. parent (t ! m) = Some p \<longrightarrow> depth (t1 ! p) = depth (t ! p)"
        using dep parents_okD [OF pok m] m by (metis less_trans)
      then show ?thesis using nodes [OF m] atm d 1 by simp
    next
      case 2
      have "\<forall>p. parent (t ! i) = Some p \<longrightarrow> depth (t1 ! p) = depth (t ! p)"
        using dep parents_okD [OF pok 2(1)] 2(1) by (metis less_trans)
      then show ?thesis using nodes [OF 2(1)] old [OF 2] by simp
    next
      case 3
      then show ?thesis using new a dep [OF m] by simp
    qed
  qed
  ultimately show ?thesis unfolding shape_ok_def by blast
qed

lemma shape_ok_same_shape:
  assumes ok: "shape_ok subgoals md t" and ss: "same_shape t t'"
  shows "shape_ok subgoals md t'"
proof -
  have len: "length t' = length t" using ss by (simp add: same_shape_def)
  have f: "i < length t \<Longrightarrow> parent (t' ! i) = parent (t ! i) \<and> children (t' ! i) = children (t ! i)
        \<and> action (t' ! i) = action (t ! i) \<and> depth (t' ! i) = depth (t ! i)" for i
    using ss unfolding same_shape_def by blast
  have pok: "parents_ok t" and cok: "children_ok t" using ok by (simp_all add: shape_ok_def)
  have pok': "parents_ok t'" using pok ss by (rule parents_ok_same_shape)
  have "0 < length t" using pok by (simp add: parents_ok_def)
  then have root: "depth (t' ! 0) = 0" using ok f [of 0] by (simp add: shape_ok_def)
  have cok': "children_ok t'"
    unfolding children_ok_def
  proof (intro allI impI ballI)
    fix i c assume "i < length t'" and "c \<in> set (children (t' ! i))"
    then have i: "i < length t" and "c \<in> set (children (t ! i))" using len f by simp_all
    then have "c < length t" and "parent (t ! c) = Some i"
      using cok unfolding children_ok_def by blast+
    then show "c < length t' \<and> parent (t' ! c) = Some i" using len f by simp
  qed
  have "\<forall>i < length t'.
        length (children (t' ! i)) \<le> 1
        \<and> (children (t' ! i) \<noteq> [] \<longrightarrow> int (depth (t' ! i)) < md)
        \<and> (\<forall>a. action (t' ! i) = Some a \<longrightarrow> a \<in> np_str ` set subgoals)
        \<and> (\<forall>p. parent (t' ! i) = Some p \<longrightarrow> depth (t' ! i) = depth (t' ! p) + 1)"
  proof (intro allI impI)
    fix i assume "i < length t'"
    then have i: "i < length t" using len by simp
    have n: "length (children (t ! i)) \<le> 1
        \<and> (children (t ! i) \<noteq> [] \<longrightarrow> int (depth (t ! i)) < md)
        \<and> (\<forall>a. action (t ! i) = Some a \<longrightarrow> a \<in> np_str ` set subgoals)
        \<and> (\<forall>p. parent (t ! i) = Some p \<longrightarrow> depth (t ! i) = depth (t ! p) + 1)"
      using ok i unfolding shape_ok_def by blast
    have "\<forall>p. parent (t ! i) = Some p \<longrightarrow> depth (t' ! p) = depth (t ! p)"
      using f parents_okD [OF pok i] i by (metis less_trans)
    then show "length (children (t' ! i)) \<le> 1
        \<and> (children (t' ! i) \<noteq> [] \<longrightarrow> int (depth (t' ! i)) < md)
        \<and> (\<forall>a. action (t' ! i) = Some a \<longrightarrow> a \<in> np_str ` set subgoals)
        \<and> (\<forall>p. parent (t' ! i) = Some p \<longrightarrow> depth (t' ! i) = depth (t' ! p) + 1)"
      using n f [OF i] by simp
  qed
  then show ?thesis using pok' cok' root unfolding shape_ok_def by blast
qed

lemma visited_mono:
  assumes "visited t" and "same_shape t t'" and "\<forall>j < length t. visits (t ! j) \<le> visits (t' ! j)"
  shows "visited t'"
  unfolding visited_def
proof (intro allI impI)
  fix i assume "i < length t'" and "children (t' ! i) \<noteq> []"
  then have i: "i < length t" and "children (t ! i) \<noteq> []"
    using assms(2) by (simp_all add: same_shape_def)
  then have "0 < visits (t ! i)" using assms(1) by (simp add: visited_def)
  then show "0 < visits (t' ! i)" using assms(3) i by (metis less_le_trans)
qed

lemma mcts_iteration_ok:
  assumes ok: "shape_ok subgoals (max_depth p) t" and vis: "visited t"
  shows "\<exists>t'. mcts_iteration p subgoals d t = Some (Inr t')
           \<and> shape_ok subgoals (max_depth p) t' \<and> visited t'
           \<and> visits (t' ! 0) = visits (t ! 0) + 1"
proof -
  have pok: "parents_ok t" and cok: "children_ok t" using ok by (simp_all add: shape_ok_def)
  then have "0 < length t" by (simp add: parents_ok_def)
  then obtain m where sel: "select (exploration_constant p) t 0 = Some (Inr m)"
    and m: "m < length t" and leaf: "children (t ! m) = []"
    using select_returns_leaf [OF pok cok vis] by blast
  define v where "v = simulate (rewards d)"
  show ?thesis
  proof (cases "int (depth (t ! m)) < max_depth p \<and> subgoals \<noteq> []")
    case True
    define a where "a = np_str (subgoals ! (pick d mod length subgoals))"
    define t1 where "t1 = (t @ [\<lparr>state = state (t ! m), action = Some a, parent = Some m,
          children = [], visits = 0, node_value = 0, depth = depth (t ! m) + 1\<rparr>])
        [m := (t ! m)\<lparr>children := [length t]\<rparr>]"
    have ex: "expand t m subgoals (pick d) = (t1, length t)"
      using expand_leaf [OF m leaf, of subgoals "pick d"] True by (simp add: t1_def a_def)
    have "a \<in> np_str ` set subgoals" using True by (simp add: a_def)
    then have ok1: "shape_ok subgoals (max_depth p) t1"
      using shape_ok_grow [OF ok m leaf, of a "state (t ! m)"] True by (simp add: t1_def)
    then have pok1: "parents_ok t1" by (simp add: shape_ok_def)
    have len1: "length t1 = Suc (length t)" by (simp add: t1_def)
    have new: "parent (t1 ! length t) = Some m" "children (t1 ! length t) = []"
      using m by (simp_all add: t1_def nth_append)
    have old: "i < length t \<Longrightarrow> visits (t1 ! i) = visits (t ! i)" for i
      using m by (cases "i = m") (simp_all add: t1_def nth_append)
    have chi: "i < length t \<Longrightarrow> i \<noteq> m \<Longrightarrow> children (t1 ! i) = children (t ! i)" for i
      by (simp add: t1_def nth_append)
    obtain t' where bp: "backpropagate t1 (Some (length t)) v = Some t'"
      and ss: "same_shape t1 t'"
      and mono: "\<forall>j < length t1. visits (t1 ! j) \<le> visits (t' ! j)"
      and vm: "0 < visits (t' ! m)"
      and root: "visits (t' ! 0) = visits (t1 ! 0) + 1"
      using backpropagate_total [OF pok1, of "length t" v] len1 new(1) by auto
    have "visited t'"
      unfolding visited_def
    proof (intro allI impI)
      fix i assume "i < length t'" and ne: "children (t' ! i) \<noteq> []"
      then have i1: "i < length t1" and ne1: "children (t1 ! i) \<noteq> []"
        using ss by (simp_all add: same_shape_def)
      then consider "i = m" | "i < length t" "i \<noteq> m" | "i = length t" using len1 by linarith
      then show "0 < visits (t' ! i)"
      proof cases
        case 1
        then show ?thesis using vm by simp
      next
        case 2
        then have "0 < visits (t ! i)" using ne1 chi vis by (simp add: visited_def)
        then have "0 < visits (t1 ! i)" using old 2 by simp
        then show ?thesis using mono i1 by (metis less_le_trans)
      next
        case 3
        then show ?thesis using ne1 new by simp
      qed
    qed
    moreover have "shape_ok subgoals (max_depth p) t'" using ok1 ss by (rule shape_ok_same_shape)
    moreover have "visits (t' ! 0) = visits (t ! 0) + 1" using root old [of 0] \<open>0 < length t\<close> by simp
    moreover have "mcts_iteration p subgoals d t = Some (Inr t')"
      using sel True ex bp by (simp add: mcts_iteration_def v_def)
    ultimately show ?thesis by blast
  next
    case False
    have same: "(if int (depth (t ! m)) < max_depth p then expand t m subgoals (pick d) else (t, m))
         = (t, m)"
      using False by (auto simp: expand_def)
    obtain t' where bp: "backpropagate t (Some m) v = Some t'"
      and ss: "same_shape t t'"
      and mono: "\<forall>j < length t. visits (t ! j) \<le> visits (t' ! j)"
      and root: "visits (t' ! 0) = visits (t ! 0) + 1"
      using backpropagate_total [OF pok m, of v] by blast
    have "visited t'" using vis ss mono by (rule visited_mono)
    moreover have "shape_ok subgoals (max_depth p) t'" using ok ss by (rule shape_ok_same_shape)
    moreover have "mcts_iteration p subgoals d t = Some (Inr t')"
      using sel bp by (simp add: mcts_iteration_def v_def same)
    ultimately show ?thesis using root by blast
  qed
qed

lemma mcts_iterations_ok:
  assumes "shape_ok subgoals (max_depth p) t" and "visited t"
  shows "\<exists>t'. mcts_iterations p subgoals rnd k n t = Some (Inr t')
           \<and> shape_ok subgoals (max_depth p) t' \<and> visited t'
           \<and> visits (t' ! 0) = visits (t ! 0) + n"
  using assms
proof (induction n arbitrary: k t)
  case 0
  then show ?case by simp
next
  case (Suc n)
  obtain t1 where it: "mcts_iteration p subgoals (rnd k) t = Some (Inr t1)"
    and ok1: "shape_ok subgoals (max_depth p) t1" and vis1: "visited t1"
    and root1: "visits (t1 ! 0) = visits (t ! 0) + 1"
    using mcts_iteration_ok [OF Suc.prems] by blast
  obtain t' where "mcts_iterations p subgoals rnd (Suc k) n t1 = Some (Inr t')"
    and "shape_ok subgoals (max_depth p) t'" and "visited t'"
    and "visits (t' ! 0) = visits (t1 ! 0) + n"
    using Suc.IH [OF ok1 vis1] by blast
  then show ?case using it root1 by simp
qed

lemma root_ok:
  "shape_ok subgoals md [\<lparr>state = st, action = None, parent = None, children = [],
      visits = 0, node_value = 0, depth = 0\<rparr>]"
  "visited [\<lparr>state = st, action = None, parent = None, children = [],
      visits = 0, node_value = 0, depth = 0\<rparr>]"
  by (simp_all add: shape_ok_def parents_ok_def children_ok_def visited_def)

lemma search_tree_ok:
  "\<exists>t. search_tree p rnd observation subgoals = Some (Inr t)
       \<and> shape_ok subgoals (max_depth p) t \<and> visited t
       \<and> visits (t ! 0) = nat (mcts_simulations p)"
  using mcts_iterations_ok [where p = p and subgoals = subgoals and rnd = rnd and k = 0
      and n = "nat (mcts_simulations p)", OF root_ok, of observation]
  by (simp add: search_tree_def MCTSNode_init_def)

lemma extract_plan_ok:
  assumes ok: "shape_ok subgoals md t" and "n < length t"
  shows "\<exists>pl. extract_plan t n acc = Some (Inr (acc @ pl)) \<and> set pl \<subseteq> np_str ` set subgoals
           \<and> int (depth (t ! n)) + int (length pl) \<le> max md (int (depth (t ! n)))"
  using assms(2)
proof (induction "length t - n" arbitrary: n acc rule: less_induct)
  case less
  have pok: "parents_ok t" and cok: "children_ok t" using ok by (simp_all add: shape_ok_def)
  show ?case
  proof (cases "children (t ! n) = []")
    case True
    then show ?thesis by (subst extract_plan.simps) simp
  next
    case False
    obtain y where y: "y \<in> set (children (t ! n))"
      and best: "py_max (\<lambda>c. Inr (visits (t ! c))) (<) (children (t ! n)) = Inr y"
      using py_max_in [OF False, of "\<lambda>c. Inr (visits (t ! c))" "(<)"] by auto
    have ylen: "y < length t" and yp: "parent (t ! y) = Some n"
      using cok less.prems y unfolding children_ok_def by blast+
    have "n < y" using parents_okD [OF pok ylen yp] .
    then have smaller: "length t - y < length t - n" using ylen by simp
    have dn: "int (depth (t ! n)) < md"
      using ok less.prems False unfolding shape_ok_def by blast
    have dy: "depth (t ! y) = depth (t ! n) + 1"
      using ok ylen yp unfolding shape_ok_def by blast
    define step where "step = (case action (t ! y) of None \<Rightarrow> []
        | Some a \<Rightarrow> if a \<noteq> [] then [a] else [])"
    have acc': "(case action (t ! y) of None \<Rightarrow> acc
        | Some a \<Rightarrow> if a \<noteq> [] then acc @ [a] else acc) = acc @ step"
      by (simp add: step_def split: option.splits)
    have "set step \<subseteq> np_str ` set subgoals"
      using ok ylen unfolding shape_ok_def step_def by (auto split: option.splits)
    moreover have "length step \<le> 1" by (simp add: step_def split: option.splits)
    moreover obtain pl where "extract_plan t y (acc @ step) = Some (Inr ((acc @ step) @ pl))"
      and "set pl \<subseteq> np_str ` set subgoals"
      and "int (depth (t ! y)) + int (length pl) \<le> max md (int (depth (t ! y)))"
      using less.hyps [OF smaller ylen, of "acc @ step"] by blast
    moreover have "extract_plan t n acc = extract_plan t y (acc @ step)"
      using False best acc' by (subst extract_plan.simps) simp
    ultimately show ?thesis using dn dy
      by (intro exI [of _ "step @ pl"]) auto
  qed
qed

lemma refine_plan_with_mcts_ok:
  assumes "subgoals \<noteq> []"
  shows "\<exists>pl. refine_plan_with_mcts p rnd observation subgoals = Some (Inr pl)
           \<and> pl \<noteq> []
           \<and> (set pl \<subseteq> np_str ` set subgoals \<and> int (length pl) \<le> max (max_depth p) 0
                \<or> pl = subgoals)"
proof -
  obtain t where st: "search_tree p rnd observation subgoals = Some (Inr t)"
    and ok: "shape_ok subgoals (max_depth p) t"
    using search_tree_ok [of p rnd observation subgoals] by blast
  then have "0 < length t" by (simp add: shape_ok_def parents_ok_def)
  then obtain pl where ex: "extract_plan t 0 [] = Some (Inr ([] @ pl))"
    and sub: "set pl \<subseteq> np_str ` set subgoals"
    and len: "int (depth (t ! 0)) + int (length pl) \<le> max (max_depth p) (int (depth (t ! 0)))"
    using extract_plan_ok [OF ok, of 0 "[]"] by blast
  have "depth (t ! 0) = 0" using ok by (simp add: shape_ok_def)
  then have "int (length pl) \<le> max (max_depth p) 0" using len by simp
  then show ?thesis using assms st ex sub
    by (auto simp: refine_plan_with_mcts_def)
qed

section \<open>Evaluating a search\<close>

lemma mcts_iterations_rec:
  "mcts_iterations p subgoals rnd k n t =
     (if n = 0 then Some (Inr t)
      else (case mcts_iteration p subgoals (rnd k) t of
              None \<Rightarrow> None
            | Some (Inl e) \<Rightarrow> Some (Inl e)
            | Some (Inr t') \<Rightarrow> mcts_iterations p subgoals rnd (Suc k) (n - 1) t'))"
  by (cases n) (auto split: option.splits sum.splits)

lemma simulate_zero: "simulate (\<lambda>j. 0) = 0"
  by (simp add: simulate_def upt_rec)

text \<open>A text that does not end in U+0000 is what \<open>np.random.choice\<close> returns for it.\<close>

lemma np_str_id: "s = [] \<or> last s \<noteq> 0 \<Longrightarrow> np_str s = s"
  by (cases s rule: rev_cases) (simp_all add: np_str_def)

lemma np_str_table:
  "np_str (uni ''find weapon'') = uni ''find weapon''"
  "np_str (uni ''approach enemy'') = uni ''approach enemy''"
  "np_str (uni ''attack'') = uni ''attack''"
  "np_str (uni ''retreat if needed'') = uni ''retreat if needed''"
  by code_simp+

lemmas eval_search = search_tree_def constant_draws_def
      MCTSNode_init_def mcts_iteration_def select.simps backpropagate.simps
      expand_def add_child_def simulate_zero py_max_def get_ucb_value_def is_fully_expanded_def
      mcts_iterations_rec np_str_table


section \<open>Properties of the planner\<close>

lemma basic_defeat_zombie:
  "generate_basic_subgoals ''defeat zombie'' =
     map uni [''find weapon'', ''approach enemy'', ''attack'']"
  by code_simp

lemma fallback_defeat_zombie:
  "generate_fallback_subgoals ''defeat zombie'' =
     map uni [''find weapon'', ''approach enemy'', ''attack'', ''retreat if needed'']"
  by code_simp

lemma basic_recover:
  "generate_basic_subgoals ''recover from failure'' =
     map uni [''explore'', ''gather resources'', ''survive'']"
  by code_simp

lemma plan_total:
  "\<exists>pl. plan p rnd observation goal = Some (Inr pl)
     \<and> (enabled p \<and> planner_generate_subgoals p observation goal \<noteq> [] \<longrightarrow>
          pl \<noteq> []
          \<and> (set pl \<subseteq> np_str ` set (planner_generate_subgoals p observation goal)
                \<and> int (length pl) \<le> max (max_depth p) 0
              \<or> pl = planner_generate_subgoals p observation goal))"
proof (cases "enabled p \<and> planner_generate_subgoals p observation goal \<noteq> []")
  case True
  then show ?thesis
    using refine_plan_with_mcts_ok [of "planner_generate_subgoals p observation goal" p rnd observation]
    by (simp add: plan_def)
next
  case False
  then show ?thesis by (auto simp: plan_def)
qed

text \<open>
  Claim C8. The loop of the planner returns a tree, for every planner, random source,
  observation and list of subgoals, and the visit counter of its root is the number of
  iterations: \<open>mcts_simulations\<close>, and 0 when that is negative and \<open>range\<close> is empty.
\<close>

theorem root_visits_equal_simulations:
  "\<exists>t. search_tree p rnd observation subgoals = Some (Inr t)
       \<and> int (visits (t ! 0)) = max 0 (mcts_simulations p)"
  using search_tree_ok [of p rnd observation subgoals] by auto

lemma one_iteration_tree:
  "search_tree \<lparr>enabled = True, mcts_simulations = 1, max_depth = 3,
      exploration_constant = 1, subgoal_enabled = False, max_subgoals = 5, llm = None\<rparr>
     (constant_draws 0) () [uni ''find weapon'', uni ''approach enemy'', uni ''attack''] =
   Some (Inr
     [\<lparr>state = (), action = None, parent = None, children = [1], visits = 1,
         node_value = 0, depth = 0\<rparr>,
      \<lparr>state = (), action = Some (uni ''find weapon''), parent = Some 0, children = [],
         visits = 1, node_value = 0, depth = 1\<rparr>])"
  by (simp add: eval_search del: mcts_iterations.simps)

text \<open>
  Claim C1, at the tree of the planner after one iteration with three candidate
  actions. The root has one child, so it is not fully expanded for the candidate
  actions, and \<open>select\<close> does not return it: the test of \<open>select\<close> is made against the
  empty list, and the descent goes on to the child.
\<close>

theorem select_descends_past_unexpanded_node:
  "search_tree \<lparr>enabled = True, mcts_simulations = 1, max_depth = 3,
      exploration_constant = 1, subgoal_enabled = False, max_subgoals = 5, llm = None\<rparr>
     (constant_draws 0) () (map uni [''find weapon'', ''approach enemy'', ''attack'']) =
   Some (Inr
     [\<lparr>state = (), action = None, parent = None, children = [1], visits = 1,
         node_value = 0, depth = 0\<rparr>,
      \<lparr>state = (), action = Some (uni ''find weapon''), parent = Some 0, children = [],
         visits = 1, node_value = 0, depth = 1\<rparr>])
   \<and> \<not> is_fully_expanded
       \<lparr>state = (), action = None, parent = None, children = [1], visits = 1,
         node_value = 0, depth = 0\<rparr>
       (map uni [''find weapon'', ''approach enemy'', ''attack''])
   \<and> select 1
       [\<lparr>state = (), action = None, parent = None, children = [1], visits = 1,
           node_value = 0, depth = 0\<rparr>,
        \<lparr>state = (), action = Some (uni ''find weapon''), parent = Some 0, children = [],
           visits = 1, node_value = 0, depth = 1\<rparr>] 0 = Some (Inr 1)"
  by (simp add: one_iteration_tree is_fully_expanded_def select.simps py_max_def
      get_ucb_value_def)





lemma refine_without_iterations:
  assumes "mcts_simulations p \<le> 0" and "subgoals \<noteq> []"
  shows "refine_plan_with_mcts p rnd observation subgoals = Some (Inr subgoals)"
  using assms
  by (simp add: refine_plan_with_mcts_def search_tree_def MCTSNode_init_def extract_plan.simps)

text \<open>
  Claim C3, as the code has it. The constructor checks no value. For a configuration
  in which the entries \<open>subgoal_generation\<close> and \<open>llm\<close> are dictionaries or missing, it
  returns a planner, which holds the configured number of simulations and bound on the
  subgoals (100 and 5 when they are missing), also when they are zero or negative. Such a
  value takes effect when a plan is asked for: with no simulation to run, the candidate
  subgoals are returned as they are. An exception of the constructor is an
  \<open>AttributeError\<close>, and one of the two entries is then present and not a dictionary; the
  constructor raises whenever \<open>subgoal_generation\<close> is such an entry.
\<close>

theorem Planner_init_checks_no_value:
  "(cfg_subgoal_generation config \<noteq> Other \<and> cfg_llm config \<noteq> Other \<longrightarrow>
      (\<exists>p. Planner_init env config = Inr p
          \<and> mcts_simulations p = get (cfg_mcts_simulations config) 100
          \<and> max_subgoals p =
              (case cfg_subgoal_generation config of
                 Dict d \<Rightarrow> get (sg_max_subgoals d) 5 | Missing \<Rightarrow> 5 | Other \<Rightarrow> 5)
          \<and> (mcts_simulations p \<le> 0 \<and> subgoals \<noteq> [] \<longrightarrow>
               refine_plan_with_mcts p rnd observation subgoals = Some (Inr subgoals))))
   \<and> (Planner_init env config = Inl e \<longrightarrow>
        e = AttributeError
        \<and> (cfg_subgoal_generation config = Other \<or> cfg_llm config = Other))
   \<and> (cfg_subgoal_generation config = Other \<longrightarrow>
        Planner_init env config = Inl AttributeError)"
proof (intro conjI impI)
  assume dicts: "cfg_subgoal_generation config \<noteq> Other \<and> cfg_llm config \<noteq> Other"
  have "\<exists>gen. SubGoalGenerator_init env config = Inr gen"
    using dicts
    by (cases "cfg_llm config")
       (simp_all add: SubGoalGenerator_init_def as_dict_def Let_def split: option.splits)
  then obtain gen where gen: "SubGoalGenerator_init env config = Inr gen" ..
  have "\<exists>p. Planner_init env config = Inr p
          \<and> mcts_simulations p = get (cfg_mcts_simulations config) 100
          \<and> max_subgoals p =
              (case cfg_subgoal_generation config of
                 Dict d \<Rightarrow> get (sg_max_subgoals d) 5 | Missing \<Rightarrow> 5 | Other \<Rightarrow> 5)"
    using dicts gen
    by (cases "cfg_subgoal_generation config")
       (simp_all add: Planner_init_def as_dict_def Let_def get_def)
  then obtain p where init: "Planner_init env config = Inr p"
    and sims: "mcts_simulations p = get (cfg_mcts_simulations config) 100"
    and subs: "max_subgoals p =
              (case cfg_subgoal_generation config of
                 Dict d \<Rightarrow> get (sg_max_subgoals d) 5 | Missing \<Rightarrow> 5 | Other \<Rightarrow> 5)"
    by blast
  have "mcts_simulations p \<le> 0 \<and> subgoals \<noteq> [] \<longrightarrow>
            refine_plan_with_mcts p rnd observation subgoals = Some (Inr subgoals)"
    using refine_without_iterations [of p subgoals rnd observation] by blast
  then show "\<exists>p. Planner_init env config = Inr p
          \<and> mcts_simulations p = get (cfg_mcts_simulations config) 100
          \<and> max_subgoals p =
              (case cfg_subgoal_generation config of
                 Dict d \<Rightarrow> get (sg_max_subgoals d) 5 | Missing \<Rightarrow> 5 | Other \<Rightarrow> 5)
          \<and> (mcts_simulations p \<le> 0 \<and> subgoals \<noteq> [] \<longrightarrow>
               refine_plan_with_mcts p rnd observation subgoals = Some (Inr subgoals))"
    using init sims subs by blast
next
  assume raised: "Planner_init env config = Inl e"
  have gen: "e' = AttributeError \<and> cfg_llm config = Other"
    if "SubGoalGenerator_init env config = Inl e'" for e'
    using that
    by (cases "cfg_llm config")
       (simp_all add: SubGoalGenerator_init_def as_dict_def Let_def
          split: option.splits if_splits)
  show "e = AttributeError" using raised gen
    by (cases "cfg_subgoal_generation config")
       (auto simp: Planner_init_def as_dict_def Let_def split: if_splits sum.splits)
  show "cfg_subgoal_generation config = Other \<or> cfg_llm config = Other" using raised gen
    by (cases "cfg_subgoal_generation config")
       (auto simp: Planner_init_def as_dict_def Let_def split: if_splits sum.splits)
next
  assume "cfg_subgoal_generation config = Other"
  then show "Planner_init env config = Inl AttributeError"
    by (simp add: Planner_init_def as_dict_def)
qed

text \<open>
  A configuration with no simulation and no subgoal allowed, whose entry
  \<open>subgoal_generation\<close> is a dictionary and whose entry \<open>llm\<close> is missing; and the same
  configuration with \<open>None\<close> for the entry \<open>subgoal_generation\<close>.
\<close>

theorem Planner_init_checks_no_value_witness:
  "(\<exists>p. Planner_init \<lparr>subgoal_generator_module = True, llama_client = None\<rparr>
          \<lparr>cfg_enabled = None, cfg_mcts_simulations = Some 0, cfg_max_depth = None,
           cfg_exploration_constant = None,
           cfg_subgoal_generation = Dict \<lparr>sg_enabled = None, sg_max_subgoals = Some 0\<rparr>,
           cfg_llm = Missing\<rparr> = Inr p
       \<and> mcts_simulations p = 0 \<and> max_subgoals p = 0
       \<and> refine_plan_with_mcts p (constant_draws 0) () [uni ''explore''] =
           Some (Inr [uni ''explore'']))
   \<and> Planner_init \<lparr>subgoal_generator_module = True,
          llama_client = (None :: unit LlamaClient option)\<rparr>
          \<lparr>cfg_enabled = None, cfg_mcts_simulations = Some 0, cfg_max_depth = None,
           cfg_exploration_constant = None, cfg_subgoal_generation = Other,
           cfg_llm = Missing\<rparr> = Inl AttributeError"
  using Planner_init_checks_no_value
    [of "\<lparr>cfg_enabled = None, cfg_mcts_simulations = Some 0, cfg_max_depth = None,
           cfg_exploration_constant = None,
           cfg_subgoal_generation = Dict \<lparr>sg_enabled = None, sg_max_subgoals = Some 0\<rparr>,
           cfg_llm = Missing\<rparr>"
        "\<lparr>subgoal_generator_module = True, llama_client = None\<rparr>"
        "[uni ''explore'']" "constant_draws 0" "()" AttributeError]
    Planner_init_checks_no_value
    [of "\<lparr>cfg_enabled = None, cfg_mcts_simulations = Some 0, cfg_max_depth = None,
           cfg_exploration_constant = None, cfg_subgoal_generation = Other,
           cfg_llm = Missing\<rparr>"
        "\<lparr>subgoal_generator_module = True,
          llama_client = (None :: unit LlamaClient option)\<rparr>"
        "[uni ''explore'']" "constant_draws 0" "()" AttributeError]
  by (auto simp: get_def)

text \<open>
  Claim C3 as stated fails: the configuration holds the invalid values 0 for
  \<open>mcts_simulations\<close> and \<open>max_subgoals\<close>, and the construction returns a planner.
\<close>

theorem Planner_init_invalid_counterexample:
  "Planner_init \<lparr>subgoal_generator_module = True, llama_client = None\<rparr>
     \<lparr>cfg_enabled = None, cfg_mcts_simulations = Some 0, cfg_max_depth = None,
      cfg_exploration_constant = None,
      cfg_subgoal_generation = Dict \<lparr>sg_enabled = None, sg_max_subgoals = Some 0\<rparr>,
      cfg_llm = Missing\<rparr> =
   Inr \<lparr>enabled = True, mcts_simulations = 0, max_depth = 10, exploration_constant = 1,
        subgoal_enabled = True, max_subgoals = 0,
        llm = Some \<lparr>SubGoalGenerator.enabled = False,
                    llm_client = (None :: unit LlamaClient option)\<rparr>\<rparr>"
  by (simp add: Planner_init_def SubGoalGenerator_init_def as_dict_def get_def)

lemma fallback_recover:
  "generate_fallback_subgoals ''recover from failure'' =
     map uni [''explore environment'', ''gather resources'', ''avoid danger'',
              ''complete objective'']"
  by code_simp

text \<open>
  Claim C5, as the code has it. On a negative reward \<open>update_plan\<close> returns the plan that \<open>plan\<close> makes
  for the goal \<open>recover from failure\<close> from the same state, and \<open>plan\<close> returns one for
  every input; the plan is not empty when the planner is enabled and the list of subgoals
  that its oracle returns for the goal is not empty. That list is the entry of the rule
  table of the planner when the planner has no generator, and the first \<open>max_subgoals\<close>
  entries of the default list of the generator when the generator answers from its rule
  table. On a reward that is not negative \<open>update_plan\<close> returns \<open>None\<close>.
\<close>

theorem update_plan_replans_on_negative_reward:
  "(reward < 0 \<longrightarrow>
      (\<exists>pl. plan p rnd current_state ''recover from failure'' = Some (Inr pl)
          \<and> update_plan p rnd current_state executed_action reward = Some (Inr (Some pl))
          \<and> (enabled p
               \<and> planner_generate_subgoals p current_state ''recover from failure'' \<noteq> []
               \<longrightarrow> pl \<noteq> [])))
   \<and> (llm p = None \<longrightarrow>
        planner_generate_subgoals p current_state ''recover from failure'' =
          map uni [''explore'', ''gather resources'', ''survive''])
   \<and> (llm p = Some gen \<and> subgoal_enabled p
        \<and> (\<not> SubGoalGenerator.enabled gen \<or> llm_client gen = None) \<longrightarrow>
        planner_generate_subgoals p current_state ''recover from failure'' =
          py_take (max_subgoals p)
            (map uni [''explore environment'', ''gather resources'', ''avoid danger'',
                      ''complete objective'']))
   \<and> (0 \<le> reward \<longrightarrow>
        update_plan p rnd current_state executed_action reward = Some (Inr None))"
proof (intro conjI impI)
  assume neg: "reward < 0"
  obtain pl where "plan p rnd current_state ''recover from failure'' = Some (Inr pl)"
    and "enabled p \<and> planner_generate_subgoals p current_state ''recover from failure'' \<noteq> []
         \<longrightarrow> pl \<noteq> []"
    using plan_total [of p rnd current_state "''recover from failure''"] by blast
  then show "\<exists>pl. plan p rnd current_state ''recover from failure'' = Some (Inr pl)
          \<and> update_plan p rnd current_state executed_action reward = Some (Inr (Some pl))
          \<and> (enabled p
               \<and> planner_generate_subgoals p current_state ''recover from failure'' \<noteq> []
               \<longrightarrow> pl \<noteq> [])"
    using neg by (simp add: update_plan_def)
next
  assume "llm p = None"
  then show "planner_generate_subgoals p current_state ''recover from failure'' =
          map uni [''explore'', ''gather resources'', ''survive'']"
    by (simp add: planner_generate_subgoals_def basic_recover)
next
  assume "llm p = Some gen \<and> subgoal_enabled p
        \<and> (\<not> SubGoalGenerator.enabled gen \<or> llm_client gen = None)"
  then show "planner_generate_subgoals p current_state ''recover from failure'' =
          py_take (max_subgoals p)
            (map uni [''explore environment'', ''gather resources'', ''avoid danger'',
                      ''complete objective''])"
    by (auto simp: planner_generate_subgoals_def generate_subgoals_def fallback_recover)
next
  assume "0 \<le> reward"
  then show "update_plan p rnd current_state executed_action reward = Some (Inr None)"
    by (simp add: update_plan_def)
qed

text \<open>
  An enabled planner without generator, with the rewards \<open>-1\<close> and \<open>1\<close> of the
  specification.
\<close>

theorem update_plan_replans_on_negative_reward_witness:
  "(\<exists>pl. update_plan \<lparr>enabled = True, mcts_simulations = 2, max_depth = 3,
            exploration_constant = 1, subgoal_enabled = False, max_subgoals = 5, llm = None\<rparr>
           (constant_draws 0) () ''attack'' (- 1) = Some (Inr (Some pl)) \<and> pl \<noteq> [])
   \<and> update_plan \<lparr>enabled = True, mcts_simulations = 2, max_depth = 3,
            exploration_constant = 1, subgoal_enabled = False, max_subgoals = 5, llm = None\<rparr>
           (constant_draws 0) () ''attack'' 1 = Some (Inr None)"
  using update_plan_replans_on_negative_reward
    [where reward = "- 1" and rnd = "constant_draws 0" and current_state = "()"
       and executed_action = "''attack''"
       and p = "\<lparr>enabled = True, mcts_simulations = 2, max_depth = 3,
            exploration_constant = 1, subgoal_enabled = False, max_subgoals = 5, llm = None\<rparr>"]
    update_plan_replans_on_negative_reward
    [where reward = 1 and rnd = "constant_draws 0" and current_state = "()"
       and executed_action = "''attack''"
       and p = "\<lparr>enabled = True, mcts_simulations = 2, max_depth = 3,
            exploration_constant = 1, subgoal_enabled = False, max_subgoals = 5, llm = None\<rparr>"]
  by auto

text \<open>
  Claim C5 as stated fails: the planner is enabled and the fallback of the oracle for the
  goal is not empty, but the backend answers with the empty text, the oracle returns no
  subgoal, and the new plan is empty.
\<close>

theorem update_plan_empty_reply_counterexample:
  "update_plan \<lparr>enabled = True, mcts_simulations = 2, max_depth = 3,
       exploration_constant = 1, subgoal_enabled = True, max_subgoals = 5,
       llm = Some \<lparr>SubGoalGenerator.enabled = True,
                   llm_client = Some (canned_client [] :: unit LlamaClient)\<rparr>\<rparr>
     (constant_draws 0) () ''attack'' (- 1) = Some (Inr (Some []))
   \<and> generate_fallback_subgoals ''recover from failure'' \<noteq> []"
  by (simp add: update_plan_def plan_def planner_generate_subgoals_def generate_subgoals_def
      generate_subgoals_try_def canned_client_def parse_subgoals_def py_take_def
      fallback_recover)

text \<open>
  Claim C4, as the code has it. The planner is enabled and has the parameters of the
  claim. \<open>plan\<close> returns a plan for the goal \<open>defeat zombie\<close>. When the planner has no
  generator, or subgoal generation is switched off, the plan is not empty, has at most
  three entries (the depth limit) and takes them from the three subgoals of the planner's
  rule table. When the planner has a generator that answers from its own rule table and
  \<open>max_subgoals\<close> is at least 3, the plan is not empty, has at most \<open>max_subgoals\<close>
  entries and takes them from the four subgoals of the generator's rule table.
\<close>

theorem plan_defeat_zombie:
  assumes "enabled p" and "mcts_simulations p = 50" and "max_depth p = 3"
    and "exploration_constant p = 1"
  shows "\<exists>pl. plan p rnd observation ''defeat zombie'' = Some (Inr pl)
     \<and> (llm p = None \<or> \<not> subgoal_enabled p \<longrightarrow>
          pl \<noteq> [] \<and> set pl \<subseteq> uni ` {''find weapon'', ''approach enemy'', ''attack''}
          \<and> length pl \<le> 3)
     \<and> (llm p = Some gen \<and> subgoal_enabled p
          \<and> (\<not> SubGoalGenerator.enabled gen \<or> llm_client gen = None)
          \<and> 3 \<le> max_subgoals p \<longrightarrow>
          pl \<noteq> []
          \<and> set pl \<subseteq>
              uni ` {''find weapon'', ''approach enemy'', ''attack'', ''retreat if needed''}
          \<and> int (length pl) \<le> max_subgoals p)"
proof -
  define subgoals where "subgoals = planner_generate_subgoals p observation ''defeat zombie''"
  obtain pl where pl: "plan p rnd observation ''defeat zombie'' = Some (Inr pl)"
    and imp: "enabled p \<and> planner_generate_subgoals p observation ''defeat zombie'' \<noteq> [] \<longrightarrow>
          pl \<noteq> []
          \<and> (set pl \<subseteq> np_str ` set (planner_generate_subgoals p observation ''defeat zombie'')
                \<and> int (length pl) \<le> max (max_depth p) 0
              \<or> pl = planner_generate_subgoals p observation ''defeat zombie'')"
    using plan_total [of p rnd observation "''defeat zombie''"] by blast
  have props: "pl \<noteq> []"
      "set pl \<subseteq> np_str ` set subgoals \<and> int (length pl) \<le> 3 \<or> pl = subgoals"
    if "subgoals \<noteq> []"
    using imp that assms(1,3) by (simp_all add: subgoals_def)
  have a: "llm p = None \<or> \<not> subgoal_enabled p \<longrightarrow>
          pl \<noteq> [] \<and> set pl \<subseteq> uni ` {''find weapon'', ''approach enemy'', ''attack''}
          \<and> length pl \<le> 3"
  proof (rule impI)
    assume that: "llm p = None \<or> \<not> subgoal_enabled p"
    have s: "subgoals = [uni ''find weapon'', uni ''approach enemy'', uni ''attack'']"
      using that
      by (cases "llm p")
         (simp_all add: subgoals_def planner_generate_subgoals_def basic_defeat_zombie)
    then have ne: "subgoals \<noteq> []" by simp
    have img: "np_str ` set subgoals = set subgoals" by (simp add: s np_str_table)
    have "set pl \<subseteq> set subgoals \<and> length pl \<le> 3"
      using props(2) [OF ne] unfolding img by (elim disjE) (simp_all add: s)
    then show "pl \<noteq> [] \<and> set pl \<subseteq> uni ` {''find weapon'', ''approach enemy'', ''attack''}
          \<and> length pl \<le> 3"
      using props(1) [OF ne] by (simp add: s)
  qed
  have b: "llm p = Some gen \<and> subgoal_enabled p
          \<and> (\<not> SubGoalGenerator.enabled gen \<or> llm_client gen = None)
          \<and> 3 \<le> max_subgoals p \<longrightarrow>
          pl \<noteq> []
          \<and> set pl \<subseteq>
              uni ` {''find weapon'', ''approach enemy'', ''attack'', ''retreat if needed''}
          \<and> int (length pl) \<le> max_subgoals p"
  proof (rule impI)
    assume h: "llm p = Some gen \<and> subgoal_enabled p
          \<and> (\<not> SubGoalGenerator.enabled gen \<or> llm_client gen = None)
          \<and> 3 \<le> max_subgoals p"
    define table where "table =
      [uni ''find weapon'', uni ''approach enemy'', uni ''attack'', uni ''retreat if needed'']"
    have g: "generate_subgoals gen ''defeat zombie'' (Some observation) = Inr table"
      using h by (auto simp: generate_subgoals_def fallback_defeat_zombie table_def)
    have three: "3 \<le> max_subgoals p" using h by simp
    have s: "subgoals = take (nat (max_subgoals p)) table"
      using h three by (simp add: subgoals_def planner_generate_subgoals_def g py_take_def)
    have m: "3 \<le> nat (max_subgoals p)" using three by linarith
    have "length subgoals = min 4 (nat (max_subgoals p))" by (simp add: s table_def)
    then have ne: "subgoals \<noteq> []" and len: "int (length subgoals) \<le> max_subgoals p"
      using m by auto
    have sub: "set subgoals \<subseteq> set table"
      unfolding s by (rule set_take_subset)
    have "np_str ` set table = set table" by (simp add: table_def np_str_table)
    then have img: "np_str ` set subgoals \<subseteq> set table" using sub by blast
    have "int (length pl) \<le> max_subgoals p"
      using props(2) [OF ne] len three by (elim disjE) simp_all
    moreover have "set pl \<subseteq> set table"
      using props(2) [OF ne] sub img by (elim disjE) blast+
    ultimately show "pl \<noteq> []
          \<and> set pl \<subseteq>
              uni ` {''find weapon'', ''approach enemy'', ''attack'', ''retreat if needed''}
          \<and> int (length pl) \<le> max_subgoals p"
      using props(1) [OF ne] by (simp add: table_def)
  qed
  show ?thesis by (rule exI [of _ pl]) (rule conjI [OF pl conjI [OF a b]])
qed

text \<open>The hypotheses of C4 at a planner without generator.\<close>

theorem plan_defeat_zombie_witness:
  "\<exists>pl. plan \<lparr>enabled = True, mcts_simulations = 50, max_depth = 3,
           exploration_constant = 1, subgoal_enabled = False, max_subgoals = 5, llm = None\<rparr>
          (constant_draws 0) () ''defeat zombie'' = Some (Inr pl)
       \<and> pl \<noteq> [] \<and> set pl \<subseteq> uni ` {''find weapon'', ''approach enemy'', ''attack''}
       \<and> length pl \<le> 3"
  using plan_defeat_zombie
    [where p = "\<lparr>enabled = True, mcts_simulations = 50, max_depth = 3,
           exploration_constant = 1, subgoal_enabled = False, max_subgoals = 5, llm = None\<rparr>"
       and rnd = "constant_draws 0" and observation = "()"]
  by simp

lemma fifty_iterations_tree:
  "search_tree \<lparr>enabled = True, mcts_simulations = 50, max_depth = 3,
     exploration_constant = 1, subgoal_enabled = True, max_subgoals = 5,
     llm = Some \<lparr>SubGoalGenerator.enabled = False, llm_client = None\<rparr>\<rparr> (constant_draws 3) ()
     [uni ''find weapon'', uni ''approach enemy'', uni ''attack'', uni ''retreat if needed''] =
  Some (Inr [\<lparr>state = (), action = None, parent = None, children = [1], visits = 50,
       node_value = 0, depth = 0\<rparr>,
    \<lparr>state = (), action = Some (uni ''retreat if needed''), parent = Some 0, children = [2],
       visits = 50, node_value = 0, depth = 1\<rparr>,
    \<lparr>state = (), action = Some (uni ''retreat if needed''), parent = Some 1, children = [3],
       visits = 49, node_value = 0, depth = 2\<rparr>,
    \<lparr>state = (), action = Some (uni ''retreat if needed''), parent = Some 2, children = [],
       visits = 48, node_value = 0, depth = 3\<rparr>])"
  by (simp add: eval_search del: mcts_iterations.simps)

text \<open>
  Claim C4 as stated fails: the planner holds a generator whose backend is disabled,
  every draw takes the fourth subgoal of the generator's rule table, and the plan
  consists of a subgoal that is none of the three of the claim.
\<close>

theorem plan_defeat_zombie_counterexample:
  "plan \<lparr>enabled = True, mcts_simulations = 50, max_depth = 3,
     exploration_constant = 1, subgoal_enabled = True, max_subgoals = 5,
     llm = Some \<lparr>SubGoalGenerator.enabled = False, llm_client = None\<rparr>\<rparr> (constant_draws 3) ()
     ''defeat zombie'' =
   Some (Inr (map uni [''retreat if needed'', ''retreat if needed'', ''retreat if needed'']))
   \<and> uni ''retreat if needed'' \<notin> uni ` {''find weapon'', ''approach enemy'', ''attack''}"
  by (simp add: plan_def planner_generate_subgoals_def generate_subgoals_def
      fallback_defeat_zombie py_take_def refine_plan_with_mcts_def fifty_iterations_tree
      extract_plan.simps py_max_def)

end
